theory Spec2Isabelle
  imports Main
begin

section \<open>Python primitives\<close>

text \<open>
  Exceptions are values. Only the kinds that the modelled code can meet are listed:
  a call that does not bind its parameters (\<open>TypeError\<close>), an index into an empty
  list (\<open>IndexError\<close>), a failing file operation (\<open>OSError\<close>) and a failure reported
  by an external collaborator (\<open>Failure\<close>).
\<close>

datatype exn = TypeError string | IndexError | OSError string | Failure string

text \<open>\<open>s.startswith(p)\<close>.\<close>

definition startswith :: "string \<Rightarrow> string \<Rightarrow> bool" where
  "startswith s p = (take (length p) s = p)"

text \<open>
  \<open>s.replace(old, new)\<close>: the occurrences of \<open>old\<close> are replaced from the left, without
  overlap. The pattern is non-empty at its only call site; Python's behaviour for an
  empty pattern is not modelled (the string is returned as it is).
\<close>

function str_replace :: "string \<Rightarrow> string \<Rightarrow> string \<Rightarrow> string" where
  "str_replace old new [] = []"
| "str_replace old new (c # cs) =
     (if old \<noteq> [] \<and> take (length old) (c # cs) = old
      then new @ str_replace old new (drop (length old) (c # cs))
      else c # str_replace old new cs)"
  by pat_completeness auto
termination
  by (relation "measure (\<lambda>(old, new, s). length s)") auto

definition backtick :: char where
  "backtick = CHR 0x60"

section \<open>The world the pipeline acts on\<close>

text \<open>
  The log is a list of events, one constructor per \<open>logging\<close> call of
  \<open>lib/process.py\<close> that reports an outcome (debug messages are left out).
\<close>

datatype event =
    VerifyError string
  | DescriptionError string
  | ReadError string
  | NoDescription string
  | GenerateError string
  | DocstringsAdded string
  | DocstringsNotAdded string
  | NoChanges string
  | HeaderError string
  | Updated string
  | CacheUpdated string
  | UpdateError string
  | SkipFolder string
  | ProcessingFolder string "string list"
  | ContextSaved string
  | PRAborted string
  | PRCreated string
  | PRFailed string
  | AssistantError

record context_entry =
  entry_file :: string
  description :: string

text \<open>
  \<open>disk\<close> maps the path of every readable file to its content, \<open>unwritable\<close> holds the
  paths that cannot be opened for writing, \<open>backups\<close> the copies made by
  \<open>create_backup\<close>. \<open>cache\<close> and \<open>context_summary\<close> are the two in-memory objects that
  \<open>process_files_and_create_prs\<close> loads once and mutates; \<open>cache_file\<close> and
  \<open>context_file\<close> are their persisted copies. \<open>pull_requests\<close> lists the pull requests
  opened (branch and title), \<open>prompts\<close> the questions put to the user, and
  \<open>assembler_calls\<close> the arguments of every call of the external prompt assembler
  \<open>construct_few_shot_prompt\<close> (classes, \<open>max_tokens\<close>, context).
\<close>

record world =
  disk :: "string \<rightharpoonup> string"
  unwritable :: "string set"
  backups :: "(string \<times> string) list"
  cache :: "string \<rightharpoonup> string"
  context_summary :: "context_entry list"
  cache_file :: "(string \<rightharpoonup> string) option"
  context_file :: "context_entry list option"
  pull_requests :: "(string \<times> string) list"
  prompts :: "string list"
  assembler_calls :: "(string list \<times> int \<times> string) list"
  logged :: "event list"

text \<open>
  The collaborators whose code is outside \<open>src/\<close> (\<open>lib/utils.py\<close>, \<open>lib/prompt_utils.py\<close>,
  \<open>lib/docstring_utils.py\<close>, \<open>lib/config.py\<close>) and the standard library are parameters:
  \<^item> \<open>sha256_hex\<close>: the digest of a file content (\<open>hashlib\<close>, inside \<open>compute_sha256\<close>);
  \<^item> \<open>relpath p start\<close>: \<open>os.path.relpath(p, start)\<close>;
  \<^item> \<open>path_str p\<close>: \<open>str(Path(p))\<close>;
  \<^item> \<open>MAX_TOKENS\<close>: the constant of \<open>lib/config.py\<close>;
  \<^item> \<open>ensure_docstring_header\<close>, \<open>generate_file_description\<close>: may raise;
  \<^item> \<open>description_file_path file\<close>: \<open>output_dir / Path(file).with_suffix('.txt')\<close>;
  \<^item> \<open>process_imports file\<close>: the classes \<open>DocstringExtractor\<close> finds for a file (the
    extractor and the assembler are taken not to raise);
  \<^item> \<open>construct_few_shot_prompt classes max_tokens context\<close>: the prompt assembler;
  \<^item> \<open>assistant_proposal code context\<close>: what the assistant answers to
    \<open>create_file_with_docstring\<close>: it raises, proposes nothing, or proposes a new content;
  \<^item> \<open>user_accepts question\<close>: the user's answer to a yes/no question;
  \<^item> \<open>openai_files_create path\<close>: the id \<open>openai.files.create\<close> gives an uploaded file;
  \<^item> \<open>check_git_repo\<close>, \<open>traverse_repo\<close>, \<open>get_python_files\<close>, \<open>sort_files_by_size\<close>: the
    helpers of \<open>lib/utils.py\<close>; \<open>traverse_repo\<close> returns a dictionary from depth to a list
    of folders, given here by its items in insertion order;
  \<^item> \<open>assistant_available\<close>: whether \<open>initialize_and_create_assistant\<close> yields both ids;
  \<^item> the outcomes of the git and GitHub operations of \<open>create_github_pr\<close>:
    \<open>github_reachable\<close>, \<open>has_unstaged_changes\<close>, \<open>git_add_ok\<close>, \<open>checkout_branch_ok\<close>,
    \<open>get_staged_files\<close>, \<open>commit_and_push_ok\<close>, \<open>create_pull_ok\<close>, and
    \<open>unique_branch_name\<close> (\<open>sanitize_branch_name\<close> followed by the random suffix).
\<close>

record env =
  sha256_hex :: "string \<Rightarrow> string"
  relpath :: "string \<Rightarrow> string \<Rightarrow> string"
  path_str :: "string \<Rightarrow> string"
  MAX_TOKENS :: int
  ensure_docstring_header :: "string \<Rightarrow> exn + string"
  generate_file_description :: "string \<Rightarrow> exn + string"
  description_file_path :: "string \<Rightarrow> string"
  process_imports :: "string \<Rightarrow> string list"
  construct_few_shot_prompt :: "string list \<Rightarrow> int \<Rightarrow> string \<Rightarrow> string"
  assistant_proposal :: "string \<Rightarrow> string \<Rightarrow> exn + string option"
  user_accepts :: "string \<Rightarrow> bool"
  openai_files_create :: "string \<Rightarrow> exn + string"
  check_git_repo :: "string \<Rightarrow> bool"
  traverse_repo :: "string \<Rightarrow> int \<Rightarrow> (int \<times> string list) list"
  get_python_files :: "string \<Rightarrow> string list"
  sort_files_by_size :: "string list \<Rightarrow> string list"
  assistant_available :: bool
  github_reachable :: bool
  has_unstaged_changes :: bool
  git_add_ok :: bool
  checkout_branch_ok :: bool
  get_staged_files :: "string list"
  commit_and_push_ok :: bool
  create_pull_ok :: bool
  unique_branch_name :: "string \<Rightarrow> string"

definition info :: "event \<Rightarrow> world \<Rightarrow> world" where
  "info e w = w\<lparr>logged := logged w @ [e]\<rparr>"

text \<open>\<open>open(p, 'r').read()\<close>, \<open>open(p, 'w').write(c)\<close>.\<close>

definition read_file :: "string \<Rightarrow> world \<Rightarrow> exn + string" where
  "read_file p w = (case disk w p of None \<Rightarrow> Inl (OSError p) | Some c \<Rightarrow> Inr c)"

definition write_file :: "string \<Rightarrow> string \<Rightarrow> world \<Rightarrow> exn + world" where
  "write_file p c w =
     (if p \<in> unwritable w then Inl (OSError p) else Inr (w\<lparr>disk := (disk w)(p \<mapsto> c)\<rparr>))"

text \<open>
  Modelled from the spec: \<open>compute_sha256\<close> and \<open>create_backup\<close> of \<open>lib/utils.py\<close>, which
  is not under \<open>src/\<close>. The fingerprint is a digest of the file's raw content and of
  nothing else, and a file that cannot be read is a read failure; the backup is a copy
  of the original content, made before the file is overwritten.
\<close>

definition compute_sha256 :: "env \<Rightarrow> string \<Rightarrow> world \<Rightarrow> exn + string" where
  "compute_sha256 env p w =
     (case read_file p w of Inl e \<Rightarrow> Inl e | Inr c \<Rightarrow> Inr (sha256_hex env c))"

definition create_backup :: "string \<Rightarrow> world \<Rightarrow> exn + world" where
  "create_backup p w =
     (case read_file p w of
        Inl e \<Rightarrow> Inl e
      | Inr c \<Rightarrow> Inr (w\<lparr>backups := backups w @ [(p, c)]\<rparr>))"

text \<open>
  Modelled from the spec: \<open>prompt_user_confirmation\<close> of \<open>lib/utils.py\<close>, the binary
  accept/reject contract of the interaction collaborator. The question is recorded.
\<close>

definition prompt_user_confirmation :: "env \<Rightarrow> string \<Rightarrow> world \<Rightarrow> bool \<times> world" where
  "prompt_user_confirmation env question w =
     (user_accepts env question, w\<lparr>prompts := prompts w @ [question]\<rparr>)"

section \<open>\<open>approve_and_save_file\<close> (lib/process.py, lines 456-517)\<close>

text \<open>
  The parameters \<open>context_summary\<close>, \<open>collection\<close>, \<open>assistant_id\<close> and \<open>thread_id\<close> are
  not read by the body and are left out; \<open>original_code\<close> and \<open>manual\<close> are not read
  either and are kept, since the callers and the specification speak of them.
\<close>

definition approve_and_save_file ::
  "env \<Rightarrow> string \<Rightarrow> string \<Rightarrow> string \<Rightarrow> string \<Rightarrow> bool \<Rightarrow> world \<Rightarrow> bool \<times> world" where
  "approve_and_save_file env new_file_content original_code python_file_path repo_path manual w =
     (let content = str_replace [backtick, CHR '' '', backtick, backtick]
                      [backtick, backtick, backtick] new_file_content
      in if content = [] then (False, info (NoChanges python_file_path) w)
         else
           (case ensure_docstring_header env content of
              Inl e \<Rightarrow> (False, info (HeaderError python_file_path) w)
            | Inr content' \<Rightarrow>
                (case create_backup python_file_path w of
                   Inl e \<Rightarrow> (False, info (UpdateError python_file_path) w)
                 | Inr w1 \<Rightarrow>
                     (case write_file python_file_path content' w1 of
                        Inl e \<Rightarrow> (False, info (UpdateError python_file_path) w1)
                      | Inr w2 \<Rightarrow>
                          (let w3 = info (Updated python_file_path) w2
                           in case compute_sha256 env python_file_path w3 of
                                Inl e \<Rightarrow> (False, info (UpdateError python_file_path) w3)
                              | Inr new_hash \<Rightarrow>
                                  (True,
                                   info (CacheUpdated python_file_path)
                                     (w3\<lparr>cache := (cache w3)
                                            (relpath env python_file_path repo_path \<mapsto> new_hash)\<rparr>)))))))"

section \<open>\<open>filter_files_by_hash\<close> (lib/process.py, lines 520-550)\<close>

text \<open>
  The \<open>for\<close> loop with its \<open>try\<close>/\<open>except\<close>: a file whose hash cannot be computed is
  logged and the loop goes on; \<open>cache.get(relative_path)\<close> is \<open>None\<close> for a path the
  cache does not hold, and a hash differs from \<open>None\<close>.
\<close>

fun filter_files_loop ::
  "env \<Rightarrow> string \<Rightarrow> (string \<rightharpoonup> string) \<Rightarrow> string list \<Rightarrow> string list \<Rightarrow> world
   \<Rightarrow> string list \<times> world" where
  "filter_files_loop env repo_path cch [] changed_files w = (changed_files, w)"
| "filter_files_loop env repo_path cch (file_path # rest) changed_files w =
     (case compute_sha256 env file_path w of
        Inl e \<Rightarrow>
          filter_files_loop env repo_path cch rest changed_files (info (VerifyError file_path) w)
      | Inr current_hash \<Rightarrow>
          if Some current_hash \<noteq> cch (relpath env file_path repo_path)
          then filter_files_loop env repo_path cch rest (changed_files @ [file_path]) w
          else filter_files_loop env repo_path cch rest changed_files w)"

definition filter_files_by_hash ::
  "env \<Rightarrow> string list \<Rightarrow> string \<Rightarrow> (string \<rightharpoonup> string) \<Rightarrow> world \<Rightarrow> string list \<times> world" where
  "filter_files_by_hash env file_paths repo_path cch w =
     filter_files_loop env repo_path cch file_paths [] w"

section \<open>\<open>process_file_descriptions\<close> (lib/process.py, lines 94-151)\<close>

text \<open>\<open>upload_files_to_openai\<close> (lines 553-574): a failed upload is logged and skipped.\<close>

fun upload_files_to_openai :: "env \<Rightarrow> string list \<Rightarrow> string list" where
  "upload_files_to_openai env [] = []"
| "upload_files_to_openai env (file_path # rest) =
     (case openai_files_create env file_path of
        Inl e \<Rightarrow> upload_files_to_openai env rest
      | Inr file_id \<Rightarrow> file_id # upload_files_to_openai env rest)"

text \<open>
  The loop of lines 122-145. Reading the file, generating the description and writing
  the description file are inside one \<open>try\<close>; whichever fails, the file is logged and
  nothing is appended for it.
\<close>

fun describe_loop ::
  "env \<Rightarrow> string \<Rightarrow> string list \<Rightarrow> string list \<Rightarrow> world \<Rightarrow> string list \<times> world" where
  "describe_loop env repo_path [] file_descriptions_list w = (file_descriptions_list, w)"
| "describe_loop env repo_path (file # rest) file_descriptions_list w =
     (let relative_path = path_str env (relpath env file repo_path)
      in if \<not> list_ex (\<lambda>entry. path_str env (entry_file entry) = relative_path)
                 (context_summary w)
         then
           (case read_file file w of
              Inl e \<Rightarrow>
                describe_loop env repo_path rest file_descriptions_list
                  (info (DescriptionError file) w)
            | Inr file_content \<Rightarrow>
                (case generate_file_description env file_content of
                   Inl e \<Rightarrow>
                     describe_loop env repo_path rest file_descriptions_list
                       (info (DescriptionError file) w)
                 | Inr file_description \<Rightarrow>
                     (case write_file (description_file_path env file) file_description w of
                        Inl e \<Rightarrow>
                          describe_loop env repo_path rest file_descriptions_list
                            (info (DescriptionError file) w)
                      | Inr w1 \<Rightarrow>
                          describe_loop env repo_path rest
                            (file_descriptions_list @ [description_file_path env file])
                            (w1\<lparr>context_summary := context_summary w1 @
                                  [\<lparr>entry_file = relative_path,
                                    description = file_description\<rparr>]\<rparr>))))
         else describe_loop env repo_path rest file_descriptions_list w)"

text \<open>
  The embedding of the description files into the vector store
  (\<open>embed_and_store_files\<close>) has no effect on the world modelled here.
\<close>

definition process_file_descriptions ::
  "env \<Rightarrow> string list \<Rightarrow> string \<Rightarrow> world \<Rightarrow> string list \<times> world" where
  "process_file_descriptions env files_to_process repo_path w =
     (case describe_loop env repo_path files_to_process [] w of
        (file_descriptions_list, w') \<Rightarrow>
          (if file_descriptions_list \<noteq> []
           then upload_files_to_openai env file_descriptions_list else [], w'))"

section \<open>\<open>process_single_file\<close> (lib/process.py, lines 354-453)\<close>

text \<open>
  Modelled from the spec: \<open>create_file_with_docstring\<close> of \<open>lib/prompt_utils.py\<close>, which
  is not under \<open>src/\<close>: the annotator receives the source code, the context and the
  function that applies a proposed content, and returns whether a change was applied.
\<close>

definition create_file_with_docstring ::
  "env \<Rightarrow> string \<Rightarrow> string \<Rightarrow> (string \<Rightarrow> world \<Rightarrow> bool \<times> world) \<Rightarrow> world
   \<Rightarrow> (exn + bool) \<times> world" where
  "create_file_with_docstring env code context_text apply_fn w =
     (case assistant_proposal env code context_text of
        Inl e \<Rightarrow> (Inl e, w)
      | Inr None \<Rightarrow> (Inr False, w)
      | Inr (Some new_content) \<Rightarrow>
          (case apply_fn new_content w of (applied, w') \<Rightarrow> (Inr applied, w')))"

text \<open>
  The call of the prompt assembler (lines 413-418), recorded in \<open>assembler_calls\<close>.
  \<open>len(original_code)\<close> is the number of characters of the string.
\<close>

definition call_construct_few_shot_prompt ::
  "env \<Rightarrow> string list \<Rightarrow> int \<Rightarrow> string \<Rightarrow> world \<Rightarrow> string \<times> world" where
  "call_construct_few_shot_prompt env classes max_tokens context_text w =
     (construct_few_shot_prompt env classes max_tokens context_text,
      w\<lparr>assembler_calls := assembler_calls w @ [(classes, max_tokens, context_text)]\<rparr>)"

definition process_single_file :: "env \<Rightarrow> string \<Rightarrow> string \<Rightarrow> bool \<Rightarrow> world \<Rightarrow> world" where
  "process_single_file env python_file_path repo_path manual w =
     (case read_file python_file_path w of
        Inl e \<Rightarrow> info (ReadError python_file_path) w
      | Inr original_code \<Rightarrow>
          (let relative_path = relpath env python_file_path repo_path;
               cached_entry =
                 find (\<lambda>item. path_str env (entry_file item) = path_str env relative_path)
                   (context_summary w);
               file_description =
                 (case cached_entry of None \<Rightarrow> [] | Some item \<Rightarrow> description item);
               w1 = (case cached_entry of
                       None \<Rightarrow> info (NoDescription python_file_path) w
                     | Some item \<Rightarrow> w);
               classes = process_imports env python_file_path
           in case call_construct_few_shot_prompt env classes
                     (MAX_TOKENS env - int (length original_code)) file_description w1 of
                (few_shot_prompt, w2) \<Rightarrow>
                  (case create_file_with_docstring env original_code few_shot_prompt
                          (\<lambda>new_file_content.
                             approve_and_save_file env new_file_content original_code
                               python_file_path repo_path manual) w2 of
                     (Inl e, w3) \<Rightarrow> info (GenerateError python_file_path) w3
                   | (Inr result, w3) \<Rightarrow>
                       if result then info (DocstringsAdded python_file_path) w3
                       else info (DocstringsNotAdded python_file_path) w3)))"

section \<open>Calls with keyword arguments\<close>

datatype pyval = PNone | PBool bool | PInt int | PStr string

text \<open>
  Python's binding of a call \<open>f(k1=v1, ..., kn=vn)\<close> to a function whose parameters
  all lack a default value: a keyword that is not a parameter, and then a parameter that
  no keyword supplies, raises \<open>TypeError\<close> before the body runs.
\<close>

definition bind_keywords :: "string list \<Rightarrow> (string \<times> pyval) list \<Rightarrow> exn + (string \<rightharpoonup> pyval)" where
  "bind_keywords params kwargs =
     (case filter (\<lambda>k. k \<notin> set params) (map fst kwargs) of
        k # ks \<Rightarrow> Inl (TypeError (''unexpected keyword argument: '' @ k))
      | [] \<Rightarrow>
          (case filter (\<lambda>p. p \<notin> set (map fst kwargs)) params of
             p # ps \<Rightarrow> Inl (TypeError (''missing required argument: '' @ p))
           | [] \<Rightarrow> Inr (map_of kwargs)))"

text \<open>Truthiness and the string held by a value.\<close>

fun truthy :: "pyval \<Rightarrow> bool" where
  "truthy PNone = False"
| "truthy (PBool b) = b"
| "truthy (PInt i) = (i \<noteq> 0)"
| "truthy (PStr s) = (s \<noteq> [])"

fun str_of :: "pyval option \<Rightarrow> string" where
  "str_of (Some (PStr s)) = s"
| "str_of v = []"

fun int_of :: "pyval option \<Rightarrow> int" where
  "int_of (Some (PInt i)) = i"
| "int_of (Some (PBool b)) = (if b then 1 else 0)"
| "int_of v = 0"

fun truth_of :: "pyval option \<Rightarrow> bool" where
  "truth_of (Some v) = truthy v"
| "truth_of None = False"

section \<open>\<open>create_github_pr\<close> (lib/github_utils.py, lines 98-194)\<close>

text \<open>The parameters of the signature (lines 98-106); none has a default value.\<close>

definition create_github_pr_params :: "string list" where
  "create_github_pr_params =
     [''repo_path'', ''github_token'', ''github_repo'', ''branch_name'', ''folder'',
      ''pr_name'', ''target_branch'']"

text \<open>
  The body: every failing step is logged inside the function and makes it return
  False (the last \<open>except Exception\<close> catches what the steps do not); a pull request is
  opened only when every step succeeds.
\<close>

definition create_github_pr_body :: "env \<Rightarrow> (string \<rightharpoonup> pyval) \<Rightarrow> world \<Rightarrow> bool \<times> world" where
  "create_github_pr_body env args w =
     (if \<not> github_reachable env then (False, w)
      else if \<not> has_unstaged_changes env then (False, w)
      else if \<not> git_add_ok env then (False, w)
      else if \<not> checkout_branch_ok env then (False, w)
      else if get_staged_files env = [] then (False, w)
      else if \<not> commit_and_push_ok env then (False, w)
      else if \<not> create_pull_ok env then (False, w)
      else (True,
            w\<lparr>pull_requests := pull_requests w @
                 [(unique_branch_name env (str_of (args ''branch_name'')),
                   ''[Docstring-AI] '' @ str_of (args ''pr_name''))]\<rparr>))"

definition create_github_pr ::
  "env \<Rightarrow> (string \<times> pyval) list \<Rightarrow> world \<Rightarrow> (exn + bool) \<times> world" where
  "create_github_pr env kwargs w =
     (case bind_keywords create_github_pr_params kwargs of
        Inl e \<Rightarrow> (Inl e, w)
      | Inr args \<Rightarrow>
          (case create_github_pr_body env args w of (pr_created, w') \<Rightarrow> (Inr pr_created, w')))"

section \<open>\<open>process_files_and_create_prs\<close> (lib/process.py, lines 154-351)\<close>

text \<open>The parameters of the signature (lines 154-165); none has a default value.\<close>

definition process_files_and_create_prs_params :: "string list" where
  "process_files_and_create_prs_params =
     [''repo_path'', ''api_key'', ''create_pr'', ''github_token'', ''github_repo'',
      ''branch_name'', ''pr_name'', ''pr_depth'', ''manual'', ''target_branch'']"

record run_args =
  a_repo_path :: string
  a_api_key :: string
  a_create_pr :: bool
  a_github_token :: string
  a_github_repo :: string
  a_branch_name :: string
  a_pr_name :: string
  a_pr_depth :: int
  a_manual :: bool
  a_target_branch :: string

text \<open>
  The state of the per-folder loop: \<open>queue\<close> is the list \<open>files_to_describe\<close>, which
  the loop consumes; \<open>batches\<close> lists the batches processed so far, in order, each with
  its depth, its folder and its files (the folders of line 291); \<open>wld\<close> is the world.
\<close>

record run_state =
  queue :: "string list"
  batches :: "(int \<times> string \<times> string list) list"
  wld :: world

subsection \<open>The assignment of files to a folder (lines 278-284)\<close>

text \<open>
  \<open>while i < length\<close>: each turn reads \<open>files_to_describe[0]\<close> (an \<open>IndexError\<close> on an
  empty list), pops it into \<open>python_files_to_process\<close> when it starts with the folder's
  path or the depth is 0, and increments \<open>i\<close>.
\<close>

function assign_while ::
  "env \<Rightarrow> nat \<Rightarrow> nat \<Rightarrow> string \<Rightarrow> int \<Rightarrow> string list \<Rightarrow> string list
   \<Rightarrow> exn + (string list \<times> string list)" where
  "assign_while env i len folder depth files_to_describe python_files_to_process =
     (if i < len then
        (case files_to_describe of
           [] \<Rightarrow> Inl IndexError
         | f # rest \<Rightarrow>
             if startswith f (path_str env folder) \<or> depth = 0
             then assign_while env (Suc i) len folder depth rest (python_files_to_process @ [f])
             else assign_while env (Suc i) len folder depth files_to_describe
                    python_files_to_process)
      else Inr (python_files_to_process, files_to_describe))"
  by pat_completeness auto
termination
  by (relation "measure (\<lambda>(env, i, len, folder, depth, q, acc). len - i)") auto

declare assign_while.simps [simp del]

subsection \<open>Persistence at the end of a batch (lines 306-315)\<close>

text \<open>
  Modelled from the spec: \<open>load_cache\<close> and \<open>save_cache\<close> of \<open>lib/utils.py\<close>, which is not
  under \<open>src/\<close>: a missing cache file yields an empty mapping, and saving rewrites the
  persisted mapping wholesale. The context summary is written the same way; both
  writes are taken to succeed.
\<close>

definition load_cache :: "(string \<rightharpoonup> string) option \<Rightarrow> (string \<rightharpoonup> string)" where
  "load_cache persisted = (case persisted of None \<Rightarrow> Map.empty | Some m \<Rightarrow> m)"

definition save_cache :: "world \<Rightarrow> world" where
  "save_cache w = w\<lparr>cache_file := Some (cache w)\<rparr>"

definition save_context_summary :: "string \<Rightarrow> world \<Rightarrow> world" where
  "save_context_summary folder w =
     info (ContextSaved folder) (w\<lparr>context_file := Some (context_summary w)\<rparr>)"

subsection \<open>The pull request of a batch (lines 317-349)\<close>

text \<open>
  The keyword arguments of the call of \<open>create_github_pr\<close> at lines 337-344, as written
  there.
\<close>

definition handoff_kwargs :: "env \<Rightarrow> run_args \<Rightarrow> string \<Rightarrow> (string \<times> pyval) list" where
  "handoff_kwargs env a folder_rel_path =
     [(''repo_path'', PStr (a_repo_path a)),
      (''github_token'', PStr (a_github_token a)),
      (''github_repo'', PStr (a_github_repo a)),
      (''branch_name'', PStr (a_branch_name a @ ''_'' @ str_replace ''/'' ''_'' folder_rel_path)),
      (''pr_name'', PStr (a_pr_name a @ [CHR '' '', backtick] @ folder_rel_path @ [backtick])),
      (''target_branch'', PStr (a_target_branch a))]"

definition pr_question :: "string \<Rightarrow> string" where
  "pr_question folder =
     ''Do you want to proceed with creating a Pull Request for '' @ [CHR 0x27] @ folder
       @ [CHR 0x27] @ ''?''"

definition handoff :: "env \<Rightarrow> run_args \<Rightarrow> string \<Rightarrow> run_state \<Rightarrow> (exn + unit) \<times> run_state" where
  "handoff env a folder st =
     (case (if a_manual a
            then prompt_user_confirmation env (pr_question folder) (wld st)
            else (True, wld st)) of
        (proceed, w1) \<Rightarrow>
          if \<not> proceed then (Inr (), st\<lparr>wld := info (PRAborted folder) w1\<rparr>)
          else
            (let folder_rel_path = relpath env folder (a_repo_path a)
             in case create_github_pr env (handoff_kwargs env a folder_rel_path) w1 of
                  (Inl e, w2) \<Rightarrow> (Inl e, st\<lparr>wld := w2\<rparr>)
                | (Inr pr_created, w2) \<Rightarrow>
                    (Inr (),
                     st\<lparr>wld := info (if pr_created then PRCreated folder_rel_path
                                       else PRFailed folder_rel_path) w2\<rparr>)))"

subsection \<open>One folder (the body of the inner \<open>for\<close>, lines 275-349)\<close>

definition process_folder ::
  "env \<Rightarrow> run_args \<Rightarrow> bool \<Rightarrow> int \<Rightarrow> string \<Rightarrow> run_state \<Rightarrow> (exn + unit) \<times> run_state" where
  "process_folder env a git_present depth folder st =
     (case assign_while env 0 (length (queue st)) folder depth (queue st) [] of
        Inl e \<Rightarrow> (Inl e, st)
      | Inr (python_files_to_process, remaining) \<Rightarrow>
          if python_files_to_process = []
          then (Inr (), st\<lparr>queue := remaining, wld := info (SkipFolder folder) (wld st)\<rparr>)
          else
            (let w1 = info (ProcessingFolder folder python_files_to_process) (wld st);
                 w2 = foldl (\<lambda>w python_file_path.
                              process_single_file env python_file_path (a_repo_path a)
                                (a_manual a) w)
                        w1 python_files_to_process;
                 w3 = save_cache (save_context_summary folder w2);
                 st' = st\<lparr>queue := remaining,
                          batches := batches st @ [(depth, folder, python_files_to_process)],
                          wld := w3\<rparr>
             in if a_create_pr a \<and> git_present \<and> a_github_token a \<noteq> []
                   \<and> a_github_repo a \<noteq> []
                then handoff env a folder st'
                else (Inr (), st')))"

subsection \<open>The two loops (lines 273-274)\<close>

fun folder_loop ::
  "env \<Rightarrow> run_args \<Rightarrow> bool \<Rightarrow> int \<Rightarrow> string list \<Rightarrow> run_state \<Rightarrow> (exn + unit) \<times> run_state" where
  "folder_loop env a git_present depth [] st = (Inr (), st)"
| "folder_loop env a git_present depth (folder # folders) st =
     (case process_folder env a git_present depth folder st of
        (Inl e, st') \<Rightarrow> (Inl e, st')
      | (Inr u, st') \<Rightarrow> folder_loop env a git_present depth folders st')"

fun depth_loop ::
  "env \<Rightarrow> run_args \<Rightarrow> bool \<Rightarrow> (int \<times> string list) list \<Rightarrow> run_state
   \<Rightarrow> (exn + unit) \<times> run_state" where
  "depth_loop env a git_present [] st = (Inr (), st)"
| "depth_loop env a git_present ((depth, folders) # items) st =
     (case folder_loop env a git_present depth folders st of
        (Inl e, st') \<Rightarrow> (Inl e, st')
      | (Inr u, st') \<Rightarrow> depth_loop env a git_present items st')"

subsection \<open>The whole run\<close>

text \<open>
  \<open>reversed(folder_dict.items())\<close> is the list of the dictionary's items in reverse
  insertion order. The in-memory cache and context summary are loaded from their
  persisted copies before anything else.
\<close>

definition process_files_and_create_prs ::
  "env \<Rightarrow> run_args \<Rightarrow> world \<Rightarrow> (exn + unit) \<times> run_state" where
  "process_files_and_create_prs env a w0 =
     (let git_present = check_git_repo env (a_repo_path a);
          w1 = w0\<lparr>cache := load_cache (cache_file w0)\<rparr>;
          folder_dict = traverse_repo env (a_repo_path a) (a_pr_depth a);
          w2 = w1\<lparr>context_summary :=
                    (case context_file w1 of None \<Rightarrow> [] | Some entries \<Rightarrow> entries)\<rparr>
      in if \<not> assistant_available env
         then (Inr (), \<lparr>queue = [], batches = [], wld = info AssistantError w2\<rparr>)
         else
           (let python_files_sorted =
                  sort_files_by_size env (get_python_files env (a_repo_path a))
            in case filter_files_by_hash env python_files_sorted (a_repo_path a) (cache w2) w2 of
                 (files_to_describe, w3) \<Rightarrow>
                   (let w4 = (if files_to_describe \<noteq> []
                              then snd (process_file_descriptions env files_to_describe
                                          (a_repo_path a) w3)
                              else w3)
                    in depth_loop env a git_present (rev folder_dict)
                         \<lparr>queue = files_to_describe, batches = [], wld = w4\<rparr>)))"

section \<open>The processing step of \<open>main\<close> (__main__.py, lines 217-228)\<close>

text \<open>
  The local variables of \<open>main\<close> that the call reads. \<open>github_repo\<close> and \<open>github_token\<close>
  are a string or \<open>None\<close>.
\<close>

record main_locals =
  m_path :: string
  m_api_key :: string
  m_github_repo :: pyval
  m_github_token :: pyval
  m_branch_name :: string
  m_pr_name :: string
  m_pr_depth :: int
  m_manual :: bool

text \<open>The keyword arguments of the call at lines 218-228, as written there.\<close>

definition main_call_kwargs :: "main_locals \<Rightarrow> (string \<times> pyval) list" where
  "main_call_kwargs l =
     [(''repo_path'', PStr (m_path l)),
      (''api_key'', PStr (m_api_key l)),
      (''create_pr'', m_github_repo l),
      (''github_token'', m_github_token l),
      (''github_repo'', m_github_repo l),
      (''branch_name'', PStr (m_branch_name l)),
      (''pr_name'', PStr (m_pr_name l)),
      (''pr_depth'', PInt (m_pr_depth l)),
      (''manual'', PBool (m_manual l))]"

definition run_args_of :: "(string \<rightharpoonup> pyval) \<Rightarrow> run_args" where
  "run_args_of args =
     \<lparr>a_repo_path = str_of (args ''repo_path''),
      a_api_key = str_of (args ''api_key''),
      a_create_pr = truth_of (args ''create_pr''),
      a_github_token = str_of (args ''github_token''),
      a_github_repo = str_of (args ''github_repo''),
      a_branch_name = str_of (args ''branch_name''),
      a_pr_name = str_of (args ''pr_name''),
      a_pr_depth = int_of (args ''pr_depth''),
      a_manual = truth_of (args ''manual''),
      a_target_branch = str_of (args ''target_branch'')\<rparr>"

text \<open>
  A call of \<open>process_files_and_create_prs\<close> with keyword arguments: the parameters are
  bound first, and the body runs only when the binding succeeds.
\<close>

definition call_process_files_and_create_prs ::
  "env \<Rightarrow> (string \<times> pyval) list \<Rightarrow> world \<Rightarrow> (exn + unit) \<times> world" where
  "call_process_files_and_create_prs env kwargs w =
     (case bind_keywords process_files_and_create_prs_params kwargs of
        Inl e \<Rightarrow> (Inl e, w)
      | Inr args \<Rightarrow>
          (case process_files_and_create_prs env (run_args_of args) w of
             (r, st) \<Rightarrow> (r, wld st)))"

definition main_processing_step :: "env \<Rightarrow> main_locals \<Rightarrow> world \<Rightarrow> (exn + unit) \<times> world" where
  "main_processing_step env l w = call_process_files_and_create_prs env (main_call_kwargs l) w"

section \<open>Notions used to state the properties\<close>

subsection \<open>Change detection\<close>

text \<open>
  A file has changed when it can be read and the digest of its content is not the hash
  the cache holds for its relative path (which covers a path the cache does not hold);
  it is unreadable when the disk has no content for it.
\<close>

definition hash_changed :: "env \<Rightarrow> string \<Rightarrow> (string \<rightharpoonup> string) \<Rightarrow> world \<Rightarrow> string \<Rightarrow> bool" where
  "hash_changed env repo_path cch w file_path =
     (case disk w file_path of
        None \<Rightarrow> False
      | Some content \<Rightarrow> cch (relpath env file_path repo_path) \<noteq> Some (sha256_hex env content))"

definition unreadable :: "world \<Rightarrow> string \<Rightarrow> bool" where
  "unreadable w file_path = (disk w file_path = None)"

text \<open>The changed files of a run: the sorted Python files, filtered against the persisted cache.\<close>

definition changed_files :: "env \<Rightarrow> run_args \<Rightarrow> world \<Rightarrow> string list" where
  "changed_files env a w =
     filter (hash_changed env (a_repo_path a) (load_cache (cache_file w)) w)
       (sort_files_by_size env (get_python_files env (a_repo_path a)))"

subsection \<open>The context summary\<close>

text \<open>The normalized paths of the entries of the context summary, in order.\<close>

definition entry_paths :: "env \<Rightarrow> world \<Rightarrow> string list" where
  "entry_paths env w = map (\<lambda>entry. path_str env (entry_file entry)) (context_summary w)"

subsection \<open>Batches\<close>

text \<open>
  The test of line 281: a folder claims a file when the file's path starts with the
  folder's path, or the folder is at depth 0.
\<close>

definition claims_file :: "env \<Rightarrow> string \<Rightarrow> int \<Rightarrow> string \<Rightarrow> bool" where
  "claims_file env folder depth f = (startswith f (path_str env folder) \<or> depth = 0)"

text \<open>
  The batch a folder gets from a queue, as the loop of lines 278-284 computes it: the
  longest prefix of the queue whose files the folder claims; no batch when it is empty.
\<close>

definition batch_of ::
  "env \<Rightarrow> int \<Rightarrow> string \<Rightarrow> string list \<Rightarrow> (int \<times> string \<times> string list) list" where
  "batch_of env depth folder q =
     (if takeWhile (claims_file env folder depth) q = [] then []
      else [(depth, folder, takeWhile (claims_file env folder depth) q)])"

text \<open>
  A pull request is attempted for a batch when the run asks for pull requests (the
  condition of line 318) and, in manual mode, the user says yes (line 322).
\<close>

definition pr_requested :: "run_args \<Rightarrow> bool \<Rightarrow> bool" where
  "pr_requested a git_present =
     (a_create_pr a \<and> git_present \<and> a_github_token a \<noteq> [] \<and> a_github_repo a \<noteq> [])"

definition pr_attempted :: "env \<Rightarrow> run_args \<Rightarrow> bool \<Rightarrow> string \<Rightarrow> bool" where
  "pr_attempted env a git_present folder =
     (pr_requested a git_present
      \<and> (if a_manual a then user_accepts env (pr_question folder) else True))"

definition folder_missing :: exn where
  "folder_missing = TypeError ''missing required argument: folder''"

text \<open>
  What the two loops do to the result, the batches and the queue, without the world:
  every folder takes its batch from the front of the queue, and the first non-empty
  batch for which a pull request is attempted ends the run with \<open>folder_missing\<close>.
  Lemma \<open>run_plan\<close> below proves that the run computes exactly this.
\<close>

fun plan_folders ::
  "env \<Rightarrow> run_args \<Rightarrow> bool \<Rightarrow> int \<Rightarrow> string list
   \<Rightarrow> (int \<times> string \<times> string list) list \<Rightarrow> string list
   \<Rightarrow> (exn + unit) \<times> (int \<times> string \<times> string list) list \<times> string list" where
  "plan_folders env a g depth [] bs q = (Inr (), bs, q)"
| "plan_folders env a g depth (folder # folders) bs q =
     (if batch_of env depth folder q \<noteq> [] \<and> pr_attempted env a g folder
      then (Inl folder_missing, bs @ batch_of env depth folder q,
            dropWhile (claims_file env folder depth) q)
      else plan_folders env a g depth folders (bs @ batch_of env depth folder q)
             (dropWhile (claims_file env folder depth) q))"

fun plan_depths ::
  "env \<Rightarrow> run_args \<Rightarrow> bool \<Rightarrow> (int \<times> string list) list
   \<Rightarrow> (int \<times> string \<times> string list) list \<Rightarrow> string list
   \<Rightarrow> (exn + unit) \<times> (int \<times> string \<times> string list) list \<times> string list" where
  "plan_depths env a g [] bs q = (Inr (), bs, q)"
| "plan_depths env a g ((depth, folders) # items) bs q =
     (case plan_folders env a g depth folders bs q of
        (Inl e, bs', q') \<Rightarrow> (Inl e, bs', q')
      | (Inr u, bs', q') \<Rightarrow> plan_depths env a g items bs' q')"

text \<open>Two worlds with the same files, backups, pull requests and persisted state.\<close>

definition same_artifacts :: "world \<Rightarrow> world \<Rightarrow> bool" where
  "same_artifacts w w' =
     (disk w' = disk w \<and> backups w' = backups w \<and> pull_requests w' = pull_requests w
      \<and> cache_file w' = cache_file w \<and> context_file w' = context_file w)"

section \<open>A walk of the directory tree from the root down\<close>

text \<open>
  Modelled from the spec: \<open>traverse_repo\<close> of \<open>lib/utils.py\<close>, which is not under \<open>src/\<close>.
  The walk computes the depth of each directory as the number of path segments below
  the root, and records a directory of depth at most \<open>max_depth\<close> under its depth; the
  root is recorded at depth 0. The dictionary is the one the loop of
  \<open>process_files_and_create_prs\<close> reads (from a depth to the list of its folders),
  given by its items in insertion order; a directory is visited before its
  subdirectories. A directory holds its path and its subdirectories.
\<close>

datatype dir = Dir string "dir list"

definition record_folder ::
  "(int \<times> string list) list \<Rightarrow> int \<Rightarrow> string \<Rightarrow> (int \<times> string list) list" where
  "record_folder folder_dict depth path =
     (if depth \<in> fst ` set folder_dict
      then map (\<lambda>item. if fst item = depth then (fst item, snd item @ [path]) else item)
             folder_dict
      else folder_dict @ [(depth, [path])])"

fun walk ::
  "int \<Rightarrow> int \<Rightarrow> dir \<Rightarrow> (int \<times> string list) list \<Rightarrow> (int \<times> string list) list" where
  "walk max_depth depth (Dir path subdirs) folder_dict =
     (if depth \<le> max_depth
      then foldl (\<lambda>fd subdir. walk max_depth (depth + 1) subdir fd)
             (record_folder folder_dict depth path) subdirs
      else folder_dict)"

definition traverse_tree :: "dir \<Rightarrow> int \<Rightarrow> (int \<times> string list) list" where
  "traverse_tree root max_depth = walk max_depth 0 root []"

text \<open>The keys of a dictionary are the depths 0 to \<open>n - 1\<close>, in this order.\<close>

definition keys_upto :: "(int \<times> string list) list \<Rightarrow> nat \<Rightarrow> bool" where
  "keys_upto folder_dict n = (map fst folder_dict = map int [0..<n])"

section \<open>A concrete repository\<close>

text \<open>
  The repository of the specification's Example A: \<open>a.py\<close> at the root, \<open>pkg/b.py\<close> and
  \<open>pkg/sub/c.py\<close>, with a maximal depth of 1, so that the walk records \<open>repo\<close> at
  depth 0 and \<open>repo/pkg\<close> at depth 1, and does not record \<open>repo/pkg/sub\<close>. The collaborators are the simplest ones: the digest
  prefixes the content, the assistant proposes the code behind a comment, the user says
  no to every question, every git and GitHub operation succeeds. In \<open>demo_env\<close> the
  files of \<open>pkg\<close> come first in the list of Python files; in \<open>example_a_env\<close> they come
  in the order the example lists them.
\<close>

definition demo_tree :: dir where
  "demo_tree = Dir ''repo'' [Dir ''repo/pkg'' [Dir ''repo/pkg/sub'' []]]"

definition demo_env :: env where
  "demo_env =
     \<lparr>sha256_hex = (\<lambda>content. ''sha256:'' @ content),
      relpath = (\<lambda>p start. drop (Suc (length start)) p),
      path_str = (\<lambda>p. p),
      MAX_TOKENS = 1000,
      ensure_docstring_header = (\<lambda>content. Inr content),
      generate_file_description = (\<lambda>content. Inr (''describes '' @ content)),
      description_file_path = (\<lambda>f. ''data/'' @ take (length f - 3) f @ ''.txt''),
      process_imports = (\<lambda>f. []),
      construct_few_shot_prompt = (\<lambda>classes max_tokens context_text. context_text),
      assistant_proposal = (\<lambda>code context_text. Inr (Some (''# documented; '' @ code))),
      user_accepts = (\<lambda>question. False),
      openai_files_create = (\<lambda>p. Inr (''id:'' @ p)),
      check_git_repo = (\<lambda>p. True),
      traverse_repo = (\<lambda>p d. traverse_tree demo_tree d),
      get_python_files = (\<lambda>p. [''repo/pkg/b.py'', ''repo/pkg/sub/c.py'', ''repo/a.py'']),
      sort_files_by_size = (\<lambda>fs. fs),
      assistant_available = True,
      github_reachable = True,
      has_unstaged_changes = True,
      git_add_ok = True,
      checkout_branch_ok = True,
      get_staged_files = [''pkg/b.py''],
      commit_and_push_ok = True,
      create_pull_ok = True,
      unique_branch_name = (\<lambda>b. b @ ''_0000'')\<rparr>"

definition example_a_env :: env where
  "example_a_env =
     demo_env\<lparr>get_python_files :=
                 (\<lambda>p. [''repo/a.py'', ''repo/pkg/b.py'', ''repo/pkg/sub/c.py''])\<rparr>"

definition demo_world :: world where
  "demo_world =
     \<lparr>disk = [''repo/a.py'' \<mapsto> ''x = 1'', ''repo/pkg/b.py'' \<mapsto> ''y = 2'',
              ''repo/pkg/sub/c.py'' \<mapsto> ''z = 3''],
      unwritable = {},
      backups = [],
      cache = Map.empty,
      context_summary = [],
      cache_file = None,
      context_file = None,
      pull_requests = [],
      prompts = [],
      assembler_calls = [],
      logged = []\<rparr>"

text \<open>The same repository after a run that has persisted the hash of every file.\<close>

definition idle_world :: world where
  "idle_world =
     demo_world\<lparr>cache_file :=
       Some [''a.py'' \<mapsto> ''sha256:x = 1'', ''pkg/b.py'' \<mapsto> ''sha256:y = 2'',
             ''pkg/sub/c.py'' \<mapsto> ''sha256:z = 3'']\<rparr>"

definition demo_args :: run_args where
  "demo_args =
     \<lparr>a_repo_path = ''repo'', a_api_key = ''key'', a_create_pr = False, a_github_token = [],
      a_github_repo = [], a_branch_name = ''docs'', a_pr_name = ''Add docstrings'',
      a_pr_depth = 1, a_manual = False, a_target_branch = ''main''\<rparr>"

definition pr_args :: run_args where
  "pr_args = demo_args\<lparr>a_create_pr := True, a_github_token := ''token'',
                         a_github_repo := ''owner/repo''\<rparr>"

text \<open>
  A normalisation of paths that removes leading \<open>./\<close> segments, as \<open>str(Path(p))\<close> does,
  and a world whose context summary was written by hand with such a path.
\<close>

fun strip_dot :: "string \<Rightarrow> string" where
  "strip_dot (a # b # s) = (if a = CHR ''.'' \<and> b = CHR ''/'' then strip_dot s else a # b # s)"
| "strip_dot s = s"

definition dotted_env :: env where
  "dotted_env = demo_env\<lparr>path_str := strip_dot\<rparr>"

definition dotted_world :: world where
  "dotted_world =
     demo_world\<lparr>context_summary := [\<lparr>entry_file = ''./a.py'', description = ''the root module''\<rparr>]\<rparr>"

section \<open>Properties of \<open>approve_and_save_file\<close>\<close>

text \<open>
  C10. An empty proposed content makes \<open>approve_and_save_file\<close> return False; no backup
  is made, no file is written and the in-memory cache is not changed: the disk, the
  backups, the cache and its persisted copy are those of the world before the call.
\<close>

theorem approve_and_save_file_empty_content:
  "fst (approve_and_save_file env [] original_code python_file_path repo_path manual w) = False
   \<and> disk (snd (approve_and_save_file env [] original_code python_file_path repo_path manual w)) = disk w
   \<and> backups (snd (approve_and_save_file env [] original_code python_file_path repo_path manual w)) = backups w
   \<and> cache (snd (approve_and_save_file env [] original_code python_file_path repo_path manual w)) = cache w
   \<and> cache_file (snd (approve_and_save_file env [] original_code python_file_path repo_path manual w)) = cache_file w"
  by (simp add: approve_and_save_file_def info_def)

text \<open>The function never asks the user anything and never calls the prompt assembler.\<close>

lemma approve_and_save_file_frame:
  "assembler_calls (snd (approve_and_save_file env c oc p r m w)) = assembler_calls w
   \<and> prompts (snd (approve_and_save_file env c oc p r m w)) = prompts w"
  by (auto simp: approve_and_save_file_def Let_def info_def create_backup_def write_file_def
      read_file_def compute_sha256_def split: sum.splits option.splits if_splits)

lemma approve_and_save_file_frame_dest:
  "approve_and_save_file env c oc p r m w = (b, w') \<Longrightarrow>
   assembler_calls w' = assembler_calls w \<and> prompts w' = prompts w"
  using approve_and_save_file_frame [of env c oc p r m w] by simp

text \<open>Its result does not depend on \<open>manual\<close>.\<close>

lemma approve_and_save_file_ignores_manual:
  "approve_and_save_file env c oc p r True w = approve_and_save_file env c oc p r False w"
  by (simp add: approve_and_save_file_def)

section \<open>Properties of \<open>process_single_file\<close>\<close>

lemma process_single_file_never_prompts:
  "prompts (process_single_file env p r m w) = prompts w"
  by (auto simp: process_single_file_def Let_def info_def read_file_def
      call_construct_few_shot_prompt_def create_file_with_docstring_def
      split: sum.splits option.splits prod.splits if_splits
      dest!: approve_and_save_file_frame_dest)

text \<open>
  Every call of \<open>process_single_file\<close> on a readable file hands the prompt assembler one
  budget, the constant \<open>MAX_TOKENS\<close> minus the number of characters of the file's content
  (line 416); on an unreadable file the assembler is not called.
\<close>

lemma process_single_file_budgets:
  "map (\<lambda>c. fst (snd c)) (assembler_calls (process_single_file env p r m w))
   = map (\<lambda>c. fst (snd c)) (assembler_calls w) @
     (case disk w p of
        None \<Rightarrow> []
      | Some original_code \<Rightarrow> [MAX_TOKENS env - int (length original_code)])"
  by (auto simp: process_single_file_def Let_def info_def read_file_def
      call_construct_few_shot_prompt_def create_file_with_docstring_def
      split: sum.splits option.splits prod.splits if_splits
      dest!: approve_and_save_file_frame_dest)

text \<open>
  C4 (as the code behaves). In manual mode, with a user who says no to every question,
  \<open>process_single_file\<close> backs up and overwrites \<open>repo/a.py\<close> with the assistant's
  proposal, and no question has been put to the user.
\<close>

theorem manual_mode_overwrites_without_asking:
  "disk (process_single_file demo_env ''repo/a.py'' ''repo'' True demo_world) ''repo/a.py''
     = Some ''# documented; x = 1''
   \<and> backups (process_single_file demo_env ''repo/a.py'' ''repo'' True demo_world)
     = [(''repo/a.py'', ''x = 1'')]
   \<and> prompts (process_single_file demo_env ''repo/a.py'' ''repo'' True demo_world) = []
   \<and> (\<forall>question. user_accepts demo_env question = False)"
  by (simp add: process_single_file_def approve_and_save_file_def demo_env_def demo_world_def
      info_def create_backup_def read_file_def write_file_def compute_sha256_def Let_def
      backtick_def call_construct_few_shot_prompt_def create_file_with_docstring_def)

text \<open>
  Whatever counts the tokens of a content, the budget handed over is the limit minus the
  token length of the content only where that count is the number of characters; where
  the content has more tokens than characters, the budget handed over is larger than
  the limit minus the token length.
\<close>

lemma budget_differs_from_token_budget:
  assumes "disk w p = Some code" and "tokens code \<noteq> length code"
  shows "map (\<lambda>c. fst (snd c)) (assembler_calls (process_single_file env p r m w))
         \<noteq> map (\<lambda>c. fst (snd c)) (assembler_calls w) @ [MAX_TOKENS env - int (tokens code)]"
  using assms by (simp add: process_single_file_budgets)

lemma budget_exceeds_token_budget:
  assumes "disk w p = Some code" and "length code < tokens code"
  shows "\<exists>budget. map (\<lambda>c. fst (snd c)) (assembler_calls (process_single_file env p r m w))
           = map (\<lambda>c. fst (snd c)) (assembler_calls w) @ [budget]
         \<and> MAX_TOKENS env - int (tokens code) < budget"
  using assms by (simp add: process_single_file_budgets)

text \<open>
  C5 (as the code behaves). With a limit of 1000 tokens, \<open>process_single_file\<close> on
  \<open>repo/a.py\<close>, whose content \<open>x = 1\<close> has 5 characters, calls the prompt assembler once,
  with the budget 995: the limit minus the number of characters of the content. No
  count of tokens other than 5 for this content makes 995 the limit minus the token
  length of the content.
\<close>

theorem prompt_budget_counts_characters:
  "assembler_calls (process_single_file demo_env ''repo/a.py'' ''repo'' False demo_world)
     = [([], 995, [])]
   \<and> MAX_TOKENS demo_env = 1000
   \<and> length ''x = 1'' = 5
   \<and> \<not> (\<exists>tokens :: string \<Rightarrow> nat.
          tokens ''x = 1'' \<noteq> 5 \<and> MAX_TOKENS demo_env - int (tokens ''x = 1'') = 995)"
proof (intro conjI)
  show "assembler_calls (process_single_file demo_env ''repo/a.py'' ''repo'' False demo_world)
     = [([], 995, [])]"
    by (simp add: process_single_file_def approve_and_save_file_def demo_env_def demo_world_def
        info_def create_backup_def read_file_def write_file_def compute_sha256_def Let_def
        backtick_def call_construct_few_shot_prompt_def create_file_with_docstring_def)
  show "MAX_TOKENS demo_env = 1000" by (simp add: demo_env_def)
  show "length ''x = 1'' = 5" by simp
  show "\<not> (\<exists>tokens :: string \<Rightarrow> nat.
          tokens ''x = 1'' \<noteq> 5 \<and> MAX_TOKENS demo_env - int (tokens ''x = 1'') = 995)"
    by (auto simp: demo_env_def)
qed

section \<open>Properties of \<open>filter_files_by_hash\<close>\<close>

lemma info_append:
  "(info e w)\<lparr>logged := logged (info e w) @ es\<rparr> = w\<lparr>logged := logged w @ e # es\<rparr>"
  by (simp add: info_def)

lemma hash_changed_info [simp]: "hash_changed env r c (info e w) = hash_changed env r c w"
  by (rule ext) (simp add: hash_changed_def info_def)

lemma unreadable_info [simp]: "unreadable (info e w) = unreadable w"
  by (rule ext) (simp add: unreadable_def info_def)

lemma hash_changed_frame:
  "disk w' = disk w \<Longrightarrow> hash_changed env r c w' = hash_changed env r c w"
  by (rule ext) (simp add: hash_changed_def)

lemma filter_files_loop_eq:
  "filter_files_loop env repo_path cch file_paths changed w =
     (changed @ filter (hash_changed env repo_path cch w) file_paths,
      w\<lparr>logged := logged w @ map VerifyError (filter (unreadable w) file_paths)\<rparr>)"
proof (induction file_paths arbitrary: changed w)
  case Nil
  show ?case by simp
next
  case (Cons f rest)
  show ?case
  proof (cases "disk w f")
    case None
    then show ?thesis
      by (simp add: Cons.IH compute_sha256_def read_file_def hash_changed_def unreadable_def
          info_append)
  next
    case (Some c)
    then show ?thesis
      by (simp add: Cons.IH compute_sha256_def read_file_def hash_changed_def unreadable_def)
  qed
qed

lemma filter_files_by_hash_eq:
  "filter_files_by_hash env file_paths repo_path cch w =
     (filter (hash_changed env repo_path cch w) file_paths,
      w\<lparr>logged := logged w @ map VerifyError (filter (unreadable w) file_paths)\<rparr>)"
  by (simp add: filter_files_by_hash_def filter_files_loop_eq)

text \<open>
  C6. \<open>filter_files_by_hash\<close> returns, in their order, exactly the input files that can
  be read and whose current hash is not the hash the cache holds for their relative
  path (a path absent from the cache included); a file that cannot be read is not
  returned, and the only effect of the call is one error logged for each such file.
\<close>

theorem filter_files_by_hash_changed_only:
  "fst (filter_files_by_hash env file_paths repo_path cch w)
     = filter (hash_changed env repo_path cch w) file_paths
   \<and> snd (filter_files_by_hash env file_paths repo_path cch w)
     = w\<lparr>logged := logged w @ map VerifyError (filter (unreadable w) file_paths)\<rparr>"
  by (simp add: filter_files_by_hash_eq)

section \<open>Properties of \<open>process_file_descriptions\<close>\<close>

lemma write_file_context:
  "write_file p c w = Inr w1 \<Longrightarrow> context_summary w1 = context_summary w"
  by (auto simp: write_file_def split: if_splits)

lemma describe_loop_distinct:
  assumes idem: "\<forall>p. path_str env (path_str env p) = path_str env p"
  shows "distinct (entry_paths env w) \<Longrightarrow>
         distinct (entry_paths env (snd (describe_loop env repo_path files acc w)))"
proof (induction files arbitrary: acc w)
  case Nil
  then show ?case by simp
next
  case (Cons fp rest)
  let ?rp = "path_str env (relpath env fp repo_path)"
  show ?case
  proof (cases "list_ex (\<lambda>entry. path_str env (entry_file entry) = ?rp) (context_summary w)")
    case True
    then show ?thesis using Cons by (simp add: Let_def)
  next
    case False
    then have fresh: "?rp \<notin> set (entry_paths env w)"
      by (auto simp: entry_paths_def list_ex_iff)
    show ?thesis
    proof (cases "read_file fp w")
      case (Inl e)
      then show ?thesis using False Cons by (simp add: Let_def entry_paths_def info_def)
    next
      case (Inr content)
      note rd = this
      show ?thesis
      proof (cases "generate_file_description env content")
        case (Inl e)
        then show ?thesis using False rd Cons by (simp add: Let_def entry_paths_def info_def)
      next
        case (Inr d)
        note gen = this
        show ?thesis
        proof (cases "write_file (description_file_path env fp) d w")
          case (Inl e)
          then show ?thesis
            using False rd gen Cons by (simp add: Let_def entry_paths_def info_def)
        next
          case (Inr w1)
          have cs: "context_summary w1 = context_summary w"
            using Inr by (rule write_file_context)
          have "distinct (entry_paths env
                  (w1\<lparr>context_summary := context_summary w1 @
                        [\<lparr>entry_file = ?rp, description = d\<rparr>]\<rparr>))"
            using Cons.prems fresh idem by (simp add: entry_paths_def cs)
          from Cons.IH [OF this] show ?thesis
            using False rd gen Inr by (simp add: Let_def)
        qed
      qed
    qed
  qed
qed

lemma describe_loop_extends:
  "\<exists>added. context_summary (snd (describe_loop env repo_path files acc w))
            = context_summary w @ added"
proof (induction files arbitrary: acc w)
  case Nil
  then show ?case by simp
next
  case (Cons fp rest)
  have step: "\<exists>added. context_summary (snd (describe_loop env repo_path rest acc' w'))
                       = context_summary w @ added"
    if a: "context_summary w' = context_summary w @ pre" for acc' pre and w' :: world
  proof -
    from Cons.IH [of acc' w'] obtain added where
      "context_summary (snd (describe_loop env repo_path rest acc' w'))
       = context_summary w' @ added"
      by blast
    then show ?thesis using a by simp
  qed
  show ?case
    by (auto simp: Let_def info_def split: sum.splits
        intro!: step [where pre = "[]"] step dest!: write_file_context)
qed

lemma process_file_descriptions_context:
  "context_summary (snd (process_file_descriptions env files repo_path w))
   = context_summary (snd (describe_loop env repo_path files [] w))"
  by (simp add: process_file_descriptions_def split: prod.splits)

text \<open>
  C9. Provided the normalisation of paths is idempotent (\<open>str(Path(str(Path(p))))\<close> is
  \<open>str(Path(p))\<close>), any sequence of calls of \<open>process_file_descriptions\<close> that starts
  from a context summary with at most one entry per normalized path ends with such a
  summary, and it only appends: the entries it started from are kept, in place.
\<close>

theorem context_summary_one_entry_per_path:
  assumes idem: "\<forall>p. path_str env (path_str env p) = path_str env p"
      and dist: "distinct (entry_paths env w)"
  shows "distinct (entry_paths env
           (foldl (\<lambda>w' files. snd (process_file_descriptions env files repo_path w')) w runs))
         \<and> (\<exists>added. context_summary
               (foldl (\<lambda>w' files. snd (process_file_descriptions env files repo_path w')) w runs)
             = context_summary w @ added)"
  using dist
proof (induction runs arbitrary: w)
  case Nil
  then show ?case by simp
next
  case (Cons files runs)
  let ?w1 = "snd (process_file_descriptions env files repo_path w)"
  have d1: "distinct (entry_paths env ?w1)"
    using describe_loop_distinct [OF idem Cons.prems, of repo_path files "[]"]
    by (simp add: entry_paths_def process_file_descriptions_context)
  obtain added1 where a1: "context_summary ?w1 = context_summary w @ added1"
    using describe_loop_extends [of env repo_path files "[]" w]
    by (auto simp: process_file_descriptions_context)
  from Cons.IH [OF d1] obtain added2 where
    "distinct (entry_paths env
       (foldl (\<lambda>w' files. snd (process_file_descriptions env files repo_path w')) ?w1 runs))"
    "context_summary
       (foldl (\<lambda>w' files. snd (process_file_descriptions env files repo_path w')) ?w1 runs)
     = context_summary ?w1 @ added2"
    by blast
  then show ?case using a1 by simp
qed

lemma strip_dot_idem: "strip_dot (strip_dot s) = strip_dot s"
  by (induction s rule: strip_dot.induct) auto

text \<open>
  The witness: two runs over a summary that holds \<open>./a.py\<close>; the first describes
  \<open>repo/a.py\<close> (already present as \<open>./a.py\<close>) and \<open>repo/pkg/b.py\<close>, the second the same
  two files again.
\<close>

theorem context_summary_one_entry_per_path_witness:
  "(\<forall>p. path_str dotted_env (path_str dotted_env p) = path_str dotted_env p)
   \<and> distinct (entry_paths dotted_env dotted_world)
   \<and> distinct (entry_paths dotted_env
        (foldl (\<lambda>w' files. snd (process_file_descriptions dotted_env files ''repo'' w'))
           dotted_world
           [[''repo/a.py'', ''repo/pkg/b.py''], [''repo/a.py'', ''repo/pkg/b.py'']]))"
proof -
  have i: "\<forall>p. path_str dotted_env (path_str dotted_env p) = path_str dotted_env p"
    by (simp add: dotted_env_def strip_dot_idem)
  have d: "distinct (entry_paths dotted_env dotted_world)"
    by (simp add: entry_paths_def dotted_world_def)
  from context_summary_one_entry_per_path [OF i d] i d show ?thesis by blast
qed

section \<open>The processing step of \<open>main\<close>\<close>

text \<open>
  C2. Whatever the values of the local variables of \<open>main\<close> when it reaches its
  processing step, the call of \<open>process_files_and_create_prs\<close> raises \<open>TypeError\<close> for the
  parameter \<open>target_branch\<close>, which the call does not supply; the body does not run, and
  the world is the one before the call.
\<close>

theorem main_never_binds_target_branch:
  "main_processing_step env l w
     = (Inl (TypeError ''missing required argument: target_branch''), w)"
  by (simp add: main_processing_step_def call_process_files_and_create_prs_def bind_keywords_def
      process_files_and_create_prs_params_def main_call_kwargs_def)

section \<open>Properties of the per-folder loop\<close>

subsection \<open>The assignment takes the longest claimed prefix of the queue\<close>

lemma assign_while_eq:
  "len - i \<le> length q \<Longrightarrow>
   assign_while env i len folder depth q acc =
     Inr (acc @ takeWhile (claims_file env folder depth) (take (len - i) q),
          dropWhile (claims_file env folder depth) (take (len - i) q) @ drop (len - i) q)"
proof (induction env i len folder depth q acc rule: assign_while.induct)
  case (1 env i len folder depth q acc)
  show ?case
  proof (cases "i < len")
    case False
    then show ?thesis by (subst assign_while.simps) simp
  next
    case True
    then obtain f rest where q: "q = f # rest"
      using "1.prems" by (cases q) auto
    from True obtain n where n: "len - i = Suc n"
      by (cases "len - i") auto
    then have n': "len - Suc i = n" by simp
    show ?thesis
    proof (cases "claims_file env folder depth f")
      case yes: True
      then have c: "startswith f (path_str env folder) \<or> depth = 0"
        by (simp add: claims_file_def)
      have "n \<le> length rest" using "1.prems" n q by simp
      then have "assign_while env (Suc i) len folder depth rest (acc @ [f]) =
          Inr ((acc @ [f]) @ takeWhile (claims_file env folder depth) (take n rest),
               dropWhile (claims_file env folder depth) (take n rest) @ drop n rest)"
        using "1.IH"(1) [OF True q c] n' by simp
      then show ?thesis
        using True q c yes n by (subst assign_while.simps) simp
    next
      case no: False
      then have c: "\<not> (startswith f (path_str env folder) \<or> depth = 0)"
        by (simp add: claims_file_def)
      have "len - Suc i \<le> length q" using "1.prems" by simp
      then have "assign_while env (Suc i) len folder depth q acc =
          Inr (acc @ takeWhile (claims_file env folder depth) (take n q),
               dropWhile (claims_file env folder depth) (take n q) @ drop n q)"
        using "1.IH"(2) [OF True q c] n' by simp
      moreover have "takeWhile (claims_file env folder depth) (take n q) = []"
        using no q by (cases n) simp_all
      moreover have "dropWhile (claims_file env folder depth) (take n q) = take n q"
        using no q by (cases n) simp_all
      ultimately show ?thesis
        using True q c no n by (subst assign_while.simps) simp
    qed
  qed
qed

text \<open>
  Started as the source starts it, the loop never reads an empty queue; it returns the
  longest prefix of the queue that the folder claims, and leaves the rest: once the
  file at the front is not claimed, no later file is looked at.
\<close>

lemma assign_while_whole_queue:
  "assign_while env 0 (length q) folder depth q [] =
     Inr (takeWhile (claims_file env folder depth) q, dropWhile (claims_file env folder depth) q)"
  by (simp add: assign_while_eq)

subsection \<open>One folder\<close>

lemma create_github_pr_raises:
  "create_github_pr env (handoff_kwargs env a rel) w = (Inl folder_missing, w)"
  by (simp add: create_github_pr_def bind_keywords_def create_github_pr_params_def
      handoff_kwargs_def folder_missing_def)

lemma handoff_frame:
  "queue (snd (handoff env a folder st)) = queue st \<and>
   batches (snd (handoff env a folder st)) = batches st"
  by (simp add: handoff_def prompt_user_confirmation_def Let_def split: prod.splits sum.splits)

lemma handoff_result:
  "fst (handoff env a folder st) =
     (if (if a_manual a then user_accepts env (pr_question folder) else True)
      then Inl folder_missing else Inr ())"
  by (simp add: handoff_def prompt_user_confirmation_def create_github_pr_raises Let_def)

lemma handoff_opens_nothing:
  "pull_requests (wld (snd (handoff env a folder st))) = pull_requests (wld st)"
  by (simp add: handoff_def prompt_user_confirmation_def create_github_pr_raises Let_def
      info_def)

lemma process_folder_queue:
  "queue (snd (process_folder env a g depth folder st)) =
     dropWhile (claims_file env folder depth) (queue st)"
  by (simp add: process_folder_def assign_while_whole_queue Let_def handoff_frame)

lemma process_folder_batches:
  "batches (snd (process_folder env a g depth folder st)) =
     batches st @ batch_of env depth folder (queue st)"
  by (simp add: process_folder_def assign_while_whole_queue Let_def handoff_frame batch_of_def)

lemma process_folder_result:
  "fst (process_folder env a g depth folder st) =
     (if batch_of env depth folder (queue st) \<noteq> [] \<and> pr_attempted env a g folder
      then Inl folder_missing else Inr ())"
  by (simp add: process_folder_def assign_while_whole_queue Let_def handoff_result batch_of_def
      pr_attempted_def pr_requested_def)

lemma batch_of_depth: "b \<in> set (batch_of env depth folder q) \<Longrightarrow> fst b = depth"
  by (auto simp: batch_of_def split: if_splits)

lemma batch_of_files:
  "concat (map (\<lambda>b. snd (snd b)) (batch_of env depth folder q)) =
     takeWhile (claims_file env folder depth) q"
  by (simp add: batch_of_def)

lemma process_folder_empty_queue:
  "queue st = [] \<Longrightarrow>
   process_folder env a g depth folder st
     = (Inr (), st\<lparr>wld := info (SkipFolder folder) (wld st)\<rparr>)"
  by (simp add: process_folder_def assign_while_whole_queue [of env "[]", simplified])

subsection \<open>The loops\<close>

lemma folder_loop_batches:
  "\<exists>new. batches (snd (folder_loop env a g depth folders st)) = batches st @ new
        \<and> (\<forall>b \<in> set new. fst b = depth)
        \<and> concat (map (\<lambda>b. snd (snd b)) new) @ queue (snd (folder_loop env a g depth folders st))
            = queue st"
proof (induction folders arbitrary: st)
  case Nil
  show ?case by simp
next
  case (Cons folder folders)
  obtain r st1 where p: "process_folder env a g depth folder st = (r, st1)"
    by (cases "process_folder env a g depth folder st")
  have b1: "batches st1 = batches st @ batch_of env depth folder (queue st)"
    using process_folder_batches [of env a g depth folder st] p by simp
  have q1: "queue st1 = dropWhile (claims_file env folder depth) (queue st)"
    using process_folder_queue [of env a g depth folder st] p by simp
  have one: "concat (map (\<lambda>b. snd (snd b)) (batch_of env depth folder (queue st))) @ queue st1
               = queue st"
    by (simp add: batch_of_files q1)
  show ?case
  proof (cases r)
    case (Inl e)
    then have "folder_loop env a g depth (folder # folders) st = (Inl e, st1)"
      using p by simp
    then show ?thesis
      using b1 one batch_of_depth by (intro exI [of _ "batch_of env depth folder (queue st)"]) auto
  next
    case (Inr u)
    then have eq: "folder_loop env a g depth (folder # folders) st
                   = folder_loop env a g depth folders st1"
      using p by simp
    from Cons.IH [of st1] obtain new where
      n: "batches (snd (folder_loop env a g depth folders st1)) = batches st1 @ new"
         "\<forall>b \<in> set new. fst b = depth"
         "concat (map (\<lambda>b. snd (snd b)) new) @ queue (snd (folder_loop env a g depth folders st1))
            = queue st1"
      by blast
    show ?thesis
      unfolding eq
      using n b1 one batch_of_depth
      by (intro exI [of _ "batch_of env depth folder (queue st) @ new"]) auto
  qed
qed

text \<open>
  The batches that the loop over the depths adds come in the order of the items; their
  files, followed by what is left of the queue, are the queue the loop started from.
\<close>

lemma depth_loop_batches:
  "\<exists>new. batches (snd (depth_loop env a g items st)) = batches st @ new
        \<and> fst ` set new \<subseteq> fst ` set items
        \<and> (sorted_wrt (\<ge>) (map fst items) \<longrightarrow> sorted_wrt (\<ge>) (map fst new))
        \<and> concat (map (\<lambda>b. snd (snd b)) new) @ queue (snd (depth_loop env a g items st))
            = queue st"
proof (induction items arbitrary: st)
  case Nil
  show ?case by simp
next
  case (Cons item items)
  obtain depth folders where item: "item = (depth, folders)" by (cases item)
  obtain r st1 where p: "folder_loop env a g depth folders st = (r, st1)"
    by (cases "folder_loop env a g depth folders st")
  from folder_loop_batches [of env a g depth folders st] p obtain new1 where
    n1: "batches st1 = batches st @ new1" "\<forall>b \<in> set new1. fst b = depth"
        "concat (map (\<lambda>b. snd (snd b)) new1) @ queue st1 = queue st"
    by auto
  have s1: "sorted_wrt (\<ge>) (map fst new1)"
    using n1(2) by (simp add: sorted_wrt_map sorted_wrt_iff_nth_less)
  show ?case
  proof (cases r)
    case (Inl e)
    then have "depth_loop env a g (item # items) st = (Inl e, st1)"
      using p item by simp
    then show ?thesis
      using n1 s1 item by (intro exI [of _ new1]) auto
  next
    case (Inr u)
    then have eq: "depth_loop env a g (item # items) st = depth_loop env a g items st1"
      using p item by simp
    from Cons.IH [of st1] obtain new2 where
      n2: "batches (snd (depth_loop env a g items st1)) = batches st1 @ new2"
          "fst ` set new2 \<subseteq> fst ` set items"
          "sorted_wrt (\<ge>) (map fst items) \<longrightarrow> sorted_wrt (\<ge>) (map fst new2)"
          "concat (map (\<lambda>b. snd (snd b)) new2) @ queue (snd (depth_loop env a g items st1))
             = queue st1"
      by blast
    have "sorted_wrt (\<ge>) (map fst (new1 @ new2))"
      if srt: "sorted_wrt (\<ge>) (map fst (item # items))"
    proof -
      have "sorted_wrt (\<ge>) (map fst new2)" using srt n2(3) by simp
      moreover have "\<forall>x \<in> set new1. \<forall>y \<in> set new2. fst y \<le> fst x"
      proof (intro ballI)
        fix x y assume x: "x \<in> set new1" and y: "y \<in> set new2"
        from y n2(2) have "fst y \<in> fst ` set items" by auto
        then have "fst y \<le> depth" using srt item by auto
        then show "fst y \<le> fst x" using n1(2) x by simp
      qed
      ultimately show ?thesis using s1 by (simp add: sorted_wrt_append)
    qed
    then show ?thesis
      unfolding eq
      using n1 n2 item
      by (intro exI [of _ "new1 @ new2"]) auto
  qed
qed

lemma folder_loop_empty_queue:
  "queue st = [] \<Longrightarrow>
   fst (folder_loop env a g depth folders st) = Inr ()
   \<and> queue (snd (folder_loop env a g depth folders st)) = []
   \<and> batches (snd (folder_loop env a g depth folders st)) = batches st
   \<and> same_artifacts (wld st) (wld (snd (folder_loop env a g depth folders st)))"
proof (induction folders arbitrary: st)
  case Nil
  then show ?case by (simp add: same_artifacts_def)
next
  case (Cons folder folders)
  let ?st1 = "st\<lparr>wld := info (SkipFolder folder) (wld st)\<rparr>"
  have "queue ?st1 = []" using Cons.prems by simp
  from Cons.IH [OF this] show ?case
    using Cons.prems by (simp add: process_folder_empty_queue same_artifacts_def info_def)
qed

lemma depth_loop_empty_queue:
  "queue st = [] \<Longrightarrow>
   fst (depth_loop env a g items st) = Inr ()
   \<and> queue (snd (depth_loop env a g items st)) = []
   \<and> batches (snd (depth_loop env a g items st)) = batches st
   \<and> same_artifacts (wld st) (wld (snd (depth_loop env a g items st)))"
proof (induction items arbitrary: st)
  case Nil
  then show ?case by (simp add: same_artifacts_def)
next
  case (Cons item items)
  obtain depth folders where item: "item = (depth, folders)" by (cases item)
  obtain r st1 where p: "folder_loop env a g depth folders st = (r, st1)"
    by (cases "folder_loop env a g depth folders st")
  from folder_loop_empty_queue [OF Cons.prems, of env a g depth folders] p
  have f: "r = Inr ()" "queue st1 = []" "batches st1 = batches st"
          "same_artifacts (wld st) (wld st1)"
    by simp_all
  from Cons.IH [OF f(2)] show ?case
    using f p item by (simp add: same_artifacts_def)
qed

subsection \<open>The loops compute the plan\<close>

lemma folder_loop_plan:
  "(fst (folder_loop env a g depth folders st),
    batches (snd (folder_loop env a g depth folders st)),
    queue (snd (folder_loop env a g depth folders st)))
   = plan_folders env a g depth folders (batches st) (queue st)"
proof (induction folders arbitrary: st)
  case Nil
  show ?case by simp
next
  case (Cons folder folders)
  obtain r st1 where p: "process_folder env a g depth folder st = (r, st1)"
    by (cases "process_folder env a g depth folder st")
  have r: "r = (if batch_of env depth folder (queue st) \<noteq> [] \<and> pr_attempted env a g folder
                then Inl folder_missing else Inr ())"
    using process_folder_result [of env a g depth folder st] p by simp
  have b1: "batches st1 = batches st @ batch_of env depth folder (queue st)"
    using process_folder_batches [of env a g depth folder st] p by simp
  have q1: "queue st1 = dropWhile (claims_file env folder depth) (queue st)"
    using process_folder_queue [of env a g depth folder st] p by simp
  show ?case
  proof (cases "batch_of env depth folder (queue st) \<noteq> [] \<and> pr_attempted env a g folder")
    case True
    then show ?thesis using p r b1 q1 by simp
  next
    case False
    then have "r = Inr ()" using r by simp
    then have eq: "folder_loop env a g depth (folder # folders) st
               = folder_loop env a g depth folders st1"
      using p by simp
    have "plan_folders env a g depth (folder # folders) (batches st) (queue st)
          = plan_folders env a g depth folders (batches st1) (queue st1)"
      using False b1 q1 by auto
    then show ?thesis
      unfolding eq using Cons.IH [of st1] by simp
  qed
qed

lemma depth_loop_plan:
  "(fst (depth_loop env a g items st),
    batches (snd (depth_loop env a g items st)),
    queue (snd (depth_loop env a g items st)))
   = plan_depths env a g items (batches st) (queue st)"
proof (induction items arbitrary: st)
  case Nil
  show ?case by simp
next
  case (Cons item items)
  obtain depth folders where item: "item = (depth, folders)" by (cases item)
  obtain r st1 where p: "folder_loop env a g depth folders st = (r, st1)"
    by (cases "folder_loop env a g depth folders st")
  have pl: "plan_folders env a g depth folders (batches st) (queue st)
            = (r, batches st1, queue st1)"
    using folder_loop_plan [of env a g depth folders st] p by simp
  show ?case
  proof (cases r)
    case (Inl e)
    then show ?thesis using p pl item by simp
  next
    case (Inr u)
    then show ?thesis using p pl item Cons.IH [of st1] by simp
  qed
qed

text \<open>
  When the assistant is available, the result of a run, its batches and the files it
  leaves in the queue are those of the plan for the changed files.
\<close>

lemma run_is_depth_loop:
  assumes "assistant_available env"
  shows "\<exists>w4. process_files_and_create_prs env a w
          = depth_loop env a (check_git_repo env (a_repo_path a))
              (rev (traverse_repo env (a_repo_path a) (a_pr_depth a)))
              \<lparr>queue = changed_files env a w, batches = [], wld = w4\<rparr>"
proof -
  let ?w2 = "w\<lparr>cache := load_cache (cache_file w),
               context_summary := (case context_file w of None \<Rightarrow> [] | Some entries \<Rightarrow> entries)\<rparr>"
  have hc: "hash_changed env (a_repo_path a) (load_cache (cache_file w)) ?w2
            = hash_changed env (a_repo_path a) (load_cache (cache_file w)) w"
    by (rule hash_changed_frame) simp
  show ?thesis
    using assms
    by (auto simp: process_files_and_create_prs_def Let_def filter_files_by_hash_eq hc
        changed_files_def)
qed

lemma run_plan:
  assumes "assistant_available env"
  shows "(fst (process_files_and_create_prs env a w),
          batches (snd (process_files_and_create_prs env a w)),
          queue (snd (process_files_and_create_prs env a w)))
         = plan_depths env a (check_git_repo env (a_repo_path a))
             (rev (traverse_repo env (a_repo_path a) (a_pr_depth a))) [] (changed_files env a w)"
proof -
  from run_is_depth_loop [OF assms, of a w] obtain w4 where
    run: "process_files_and_create_prs env a w
          = depth_loop env a (check_git_repo env (a_repo_path a))
              (rev (traverse_repo env (a_repo_path a) (a_pr_depth a)))
              \<lparr>queue = changed_files env a w, batches = [], wld = w4\<rparr>"
    by blast
  show ?thesis
    unfolding run
    using depth_loop_plan [of env a "check_git_repo env (a_repo_path a)"
        "rev (traverse_repo env (a_repo_path a) (a_pr_depth a))"
        "\<lparr>queue = changed_files env a w, batches = [], wld = w4\<rparr>"]
    by simp
qed

text \<open>
  No file is lost or duplicated by the loops themselves: the files of the batches, in
  the order of the batches, followed by the files left in the queue, are the changed
  files.
\<close>

lemma run_conserves_changed_files:
  assumes "assistant_available env"
  shows "concat (map (\<lambda>b. snd (snd b)) (batches (snd (process_files_and_create_prs env a w))))
           @ queue (snd (process_files_and_create_prs env a w))
         = changed_files env a w"
proof -
  from run_is_depth_loop [OF assms, of a w] obtain w4 where
    run: "process_files_and_create_prs env a w
          = depth_loop env a (check_git_repo env (a_repo_path a))
              (rev (traverse_repo env (a_repo_path a) (a_pr_depth a)))
              \<lparr>queue = changed_files env a w, batches = [], wld = w4\<rparr>"
    by blast
  show ?thesis
    unfolding run
    using depth_loop_batches [of env a "check_git_repo env (a_repo_path a)"
        "rev (traverse_repo env (a_repo_path a) (a_pr_depth a))"
        "\<lparr>queue = changed_files env a w, batches = [], wld = w4\<rparr>"]
    by auto
qed

text \<open>
  A folder at depth 0 claims every file, so a run that completes and whose folders
  include one at depth 0 leaves no file in the queue: every changed file is in exactly
  one batch, though not always in the batch of the folder it lies under.
\<close>

lemma plan_folders_empty_queue:
  "snd (snd (plan_folders env a g depth folders bs [])) = []"
  by (induction folders arbitrary: bs) (simp_all add: batch_of_def)

lemma plan_depths_empty_queue:
  "snd (snd (plan_depths env a g items bs [])) = []"
proof (induction items arbitrary: bs)
  case Nil
  show ?case by simp
next
  case (Cons item items)
  obtain depth folders where item: "item = (depth, folders)" by (cases item)
  obtain r bs' q' where p: "plan_folders env a g depth folders bs [] = (r, bs', q')"
    by (cases "plan_folders env a g depth folders bs []") auto
  have "q' = []" using plan_folders_empty_queue [of env a g depth folders bs] p by simp
  then show ?case using p item Cons.IH by (cases r) simp_all
qed

lemma plan_folders_root:
  "fst (plan_folders env a g 0 (folder # folders) bs q) = Inr () \<Longrightarrow>
   snd (snd (plan_folders env a g 0 (folder # folders) bs q)) = []"
proof -
  assume ok: "fst (plan_folders env a g 0 (folder # folders) bs q) = Inr ()"
  have all: "dropWhile (claims_file env folder 0) q = []"
    by (simp add: claims_file_def)
  show ?thesis
  proof (cases "batch_of env 0 folder q \<noteq> [] \<and> pr_attempted env a g folder")
    case True
    then show ?thesis using ok by simp
  next
    case False
    then have "plan_folders env a g 0 (folder # folders) bs q
               = plan_folders env a g 0 folders (bs @ batch_of env 0 folder q)
                   (dropWhile (claims_file env folder 0) q)"
      by auto
    also have "\<dots> = plan_folders env a g 0 folders (bs @ batch_of env 0 folder q) []"
      by (simp only: all)
    finally show ?thesis by (simp only: plan_folders_empty_queue)
  qed
qed

lemma plan_depths_root:
  "(0, folder # folders) \<in> set items \<Longrightarrow>
   fst (plan_depths env a g items bs q) = Inr () \<Longrightarrow>
   snd (snd (plan_depths env a g items bs q)) = []"
proof (induction items arbitrary: bs q)
  case Nil
  then show ?case by simp
next
  case (Cons item items)
  obtain depth fs where item: "item = (depth, fs)" by (cases item)
  obtain r bs' q' where p: "plan_folders env a g depth fs bs q = (r, bs', q')"
    by (cases "plan_folders env a g depth fs bs q") auto
  have r: "r = Inr ()"
    using Cons.prems(2) p item by (cases r) simp_all
  then have step: "plan_depths env a g (item # items) bs q = plan_depths env a g items bs' q'"
    using p item by simp
  show ?case
  proof (cases "item = (0, folder # folders)")
    case True
    then have "q' = []"
      using plan_folders_root [of env a g folder folders bs q] p r item by simp
    then show ?thesis unfolding step by (simp add: plan_depths_empty_queue)
  next
    case False
    then have "(0, folder # folders) \<in> set items" using Cons.prems(1) by simp
    from Cons.IH [OF this, of bs' q'] Cons.prems(2) show ?thesis
      unfolding step by simp
  qed
qed

lemma run_assigns_every_changed_file:
  assumes av: "assistant_available env"
      and root: "(0, folder # folders) \<in> set (traverse_repo env (a_repo_path a) (a_pr_depth a))"
      and ok: "fst (process_files_and_create_prs env a w) = Inr ()"
  shows "concat (map (\<lambda>b. snd (snd b)) (batches (snd (process_files_and_create_prs env a w))))
         = changed_files env a w"
proof -
  let ?plan = "plan_depths env a (check_git_repo env (a_repo_path a))
                 (rev (traverse_repo env (a_repo_path a) (a_pr_depth a))) []
                 (changed_files env a w)"
  have pl: "(fst (process_files_and_create_prs env a w),
             batches (snd (process_files_and_create_prs env a w)),
             queue (snd (process_files_and_create_prs env a w))) = ?plan"
    by (rule run_plan [OF av])
  have "fst ?plan = Inr ()" using ok pl [symmetric] by simp
  moreover have "(0, folder # folders)
                 \<in> set (rev (traverse_repo env (a_repo_path a) (a_pr_depth a)))"
    using root by simp
  ultimately have "snd (snd ?plan) = []" by (rule plan_depths_root [rotated])
  then have "queue (snd (process_files_and_create_prs env a w)) = []"
    using pl [symmetric] by simp
  then show ?thesis
    using run_conserves_changed_files [OF av, of a w] by simp
qed

lemmas plan_eval = batch_of_def claims_file_def startswith_def changed_files_def
  hash_changed_def load_cache_def pr_attempted_def pr_requested_def


section \<open>Properties of the walk\<close>

lemma keys_upto_set: "keys_upto fd n \<Longrightarrow> fst ` set fd = int ` {0..<n}"
proof -
  assume "keys_upto fd n"
  then have "set (map fst fd) = set (map int [0..<n])"
    by (simp only: keys_upto_def)
  then show ?thesis by simp
qed

lemma record_folder_present:
  assumes k: "keys_upto fd n" and d: "0 \<le> d" "nat d < n"
  shows "keys_upto (record_folder fd d p) n"
proof -
  have "nat d \<in> {0..<n}" using d(2) by simp
  then have "int (nat d) \<in> int ` {0..<n}" by (rule imageI)
  moreover have "int (nat d) = d" using d(1) by simp
  ultimately have "d \<in> fst ` set fd" using keys_upto_set [OF k] by simp
  moreover have "fst \<circ> (\<lambda>item. if fst item = d then (fst item, snd item @ [p]) else item) = fst"
    by (rule ext) simp
  ultimately show ?thesis using k by (simp add: record_folder_def keys_upto_def)
qed

lemma record_folder_new:
  assumes k: "keys_upto fd n" and d: "d = int n"
  shows "keys_upto (record_folder fd d p) (Suc n)"
proof -
  have "d \<notin> fst ` set fd" using d keys_upto_set [OF k] by auto
  then show ?thesis using k d by (simp add: record_folder_def keys_upto_def)
qed

lemma record_folder_step:
  assumes "keys_upto fd n" "0 \<le> d" "nat d \<le> n"
  shows "keys_upto (record_folder fd d p) (max n (Suc (nat d)))"
proof (cases "nat d < n")
  case True
  then have "max n (Suc (nat d)) = n" by simp
  then show ?thesis using record_folder_present [OF assms(1,2) True] by simp
next
  case False
  then have e: "nat d = n" using assms(3) by simp
  then have "d = int n" using assms(2) by simp
  from record_folder_new [OF assms(1) this] show ?thesis using e by simp
qed

text \<open>
  A directory of depth \<open>d\<close> is visited when the depths below \<open>d\<close> are keys already, so
  the walk keeps the keys in ascending order.
\<close>

lemma walk_keys:
  "0 \<le> depth \<Longrightarrow> keys_upto fd n \<Longrightarrow> nat depth \<le> n \<Longrightarrow>
   \<exists>n'. n \<le> n' \<and> keys_upto (walk max_depth depth t fd) n'"
proof (induction t arbitrary: depth fd n)
  case (Dir path subdirs)
  show ?case
  proof (cases "depth \<le> max_depth")
    case False
    then show ?thesis using Dir.prems by auto
  next
    case True
    let ?fd1 = "record_folder fd depth path"
    let ?n1 = "max n (Suc (nat depth))"
    have k1: "keys_upto ?fd1 ?n1"
      using record_folder_step [OF Dir.prems(2,1,3)] .
    have subs: "\<exists>n'. m \<le> n' \<and>
        keys_upto (foldl (\<lambda>fd subdir. walk max_depth (depth + 1) subdir fd) fd' ss) n'"
      if "set ss \<subseteq> set subdirs" "keys_upto fd' m" "Suc (nat depth) \<le> m" for ss fd' m
      using that
    proof (induction ss arbitrary: fd' m)
      case Nil
      then show ?case by auto
    next
      case (Cons s ss)
      have s: "s \<in> set subdirs" using Cons.prems(1) by simp
      have d1: "0 \<le> depth + 1" using Dir.prems(1) by simp
      have "nat (depth + 1) \<le> m" using Cons.prems(3) Dir.prems(1) by simp
      from Dir.IH [OF s d1 Cons.prems(2) this]
      obtain m1 where m1: "m \<le> m1" "keys_upto (walk max_depth (depth + 1) s fd') m1"
        by auto
      have "set ss \<subseteq> set subdirs" using Cons.prems(1) by simp
      moreover have "Suc (nat depth) \<le> m1" using m1(1) Cons.prems(3) by simp
      ultimately obtain m2 where "m1 \<le> m2"
        "keys_upto (foldl (\<lambda>fd subdir. walk max_depth (depth + 1) subdir fd)
           (walk max_depth (depth + 1) s fd') ss) m2"
        using Cons.IH [OF _ m1(2)] by blast
      then show ?case using m1(1) by (intro exI [of _ m2]) simp
    qed
    have "Suc (nat depth) \<le> ?n1" by simp
    from subs [OF subset_refl k1 this]
    obtain n' where "?n1 \<le> n'"
      "keys_upto (foldl (\<lambda>fd subdir. walk max_depth (depth + 1) subdir fd) ?fd1 subdirs) n'"
      by auto
    then show ?thesis using True by (intro exI [of _ n']) simp
  qed
qed

text \<open>
  The dictionary of a walk from the root down lists its depths in ascending order: a
  \<open>traverse_repo\<close> that is such a walk meets the hypothesis of C7 below.
\<close>

lemma traverse_tree_sorted: "sorted (map fst (traverse_tree root max_depth))"
proof -
  have "keys_upto [] 0" by (simp add: keys_upto_def)
  from walk_keys [OF _ this, of 0 max_depth root]
  obtain n where "keys_upto (traverse_tree root max_depth) n"
    by (auto simp: traverse_tree_def)
  then have "map fst (traverse_tree root max_depth) = map int [0..<n]"
    by (simp add: keys_upto_def)
  moreover have "sorted (map int [0..<n])"
    by (simp add: sorted_map sorted_wrt_iff_nth_less)
  ultimately show ?thesis by simp
qed

lemma demo_folders [simp]:
  "traverse_tree demo_tree 1 = [(0, [''repo'']), (1, [''repo/pkg''])]"
  by (simp add: traverse_tree_def demo_tree_def record_folder_def)

section \<open>Properties of a run\<close>

text \<open>
  C1 (as the code behaves). On the repository of Example A, with the changed files in
  the order \<open>a.py\<close>, \<open>pkg/b.py\<close>, \<open>pkg/sub/c.py\<close>, the loop of lines 278-284 gives the
  folder \<open>repo/pkg\<close> no file, although two files of the queue lie under it: it reads
  the front of the queue three times and never the files behind it. The run then
  processes one batch only, the root's, with the three files.
\<close>

theorem example_a_folder_batch_is_skipped:
  "assign_while example_a_env 0 3 ''repo/pkg'' 1
      [''repo/a.py'', ''repo/pkg/b.py'', ''repo/pkg/sub/c.py''] []
     = Inr ([], [''repo/a.py'', ''repo/pkg/b.py'', ''repo/pkg/sub/c.py''])
   \<and> filter (claims_file example_a_env ''repo/pkg'' 1)
        [''repo/a.py'', ''repo/pkg/b.py'', ''repo/pkg/sub/c.py'']
     = [''repo/pkg/b.py'', ''repo/pkg/sub/c.py'']
   \<and> (fst (process_files_and_create_prs example_a_env demo_args demo_world),
       batches (snd (process_files_and_create_prs example_a_env demo_args demo_world)),
       queue (snd (process_files_and_create_prs example_a_env demo_args demo_world)))
     = (Inr (), [(0, ''repo'', [''repo/a.py'', ''repo/pkg/b.py'', ''repo/pkg/sub/c.py''])], [])"
proof (intro conjI)
  let ?q = "[''repo/a.py'', ''repo/pkg/b.py'', ''repo/pkg/sub/c.py'']"
  have "assign_while example_a_env 0 3 ''repo/pkg'' 1 ?q []
        = Inr ([] @ takeWhile (claims_file example_a_env ''repo/pkg'' 1) (take (3 - 0) ?q),
               dropWhile (claims_file example_a_env ''repo/pkg'' 1) (take (3 - 0) ?q)
                 @ drop (3 - 0) ?q)"
    by (rule assign_while_eq) simp
  also have "\<dots> = Inr ([], ?q)"
    by (simp add: claims_file_def startswith_def example_a_env_def demo_env_def)
  finally show "assign_while example_a_env 0 3 ''repo/pkg'' 1
      [''repo/a.py'', ''repo/pkg/b.py'', ''repo/pkg/sub/c.py''] []
     = Inr ([], [''repo/a.py'', ''repo/pkg/b.py'', ''repo/pkg/sub/c.py''])" .
  show "filter (claims_file example_a_env ''repo/pkg'' 1)
        [''repo/a.py'', ''repo/pkg/b.py'', ''repo/pkg/sub/c.py'']
     = [''repo/pkg/b.py'', ''repo/pkg/sub/c.py'']"
    by (simp add: claims_file_def startswith_def example_a_env_def demo_env_def)
  have "assistant_available example_a_env"
    by (simp add: example_a_env_def demo_env_def)
  from run_plan [OF this, of demo_args demo_world]
  show "(fst (process_files_and_create_prs example_a_env demo_args demo_world),
       batches (snd (process_files_and_create_prs example_a_env demo_args demo_world)),
       queue (snd (process_files_and_create_prs example_a_env demo_args demo_world)))
     = (Inr (), [(0, ''repo'', [''repo/a.py'', ''repo/pkg/b.py'', ''repo/pkg/sub/c.py''])], [])"
    by (simp add: plan_eval example_a_env_def demo_env_def demo_args_def demo_world_def)
qed

text \<open>
  C3 (as the code behaves). With pull requests asked for, the run on the concrete
  repository processes the batch of \<open>repo/pkg\<close> and ends there with the \<open>TypeError\<close> of
  the call of \<open>create_github_pr\<close>, which lacks the parameter \<open>folder\<close>: the batch of the
  root is not processed, \<open>repo/a.py\<close> is still in the queue, and no pull request is
  opened.
\<close>

theorem pull_request_call_aborts_dispatch:
  "(fst (process_files_and_create_prs demo_env pr_args demo_world),
    batches (snd (process_files_and_create_prs demo_env pr_args demo_world)),
    queue (snd (process_files_and_create_prs demo_env pr_args demo_world)))
   = (Inl (TypeError ''missing required argument: folder''),
      [(1, ''repo/pkg'', [''repo/pkg/b.py'', ''repo/pkg/sub/c.py''])], [''repo/a.py''])"
proof -
  have "assistant_available demo_env"
    by (simp add: demo_env_def)
  from run_plan [OF this, of pr_args demo_world] show ?thesis
    by (simp add: plan_eval demo_env_def demo_args_def pr_args_def demo_world_def
        folder_missing_def)
qed

text \<open>
  C7. Provided \<open>traverse_repo\<close> lists the depths of its dictionary in ascending order
  (the insertion order of a walk from the root down), the batches of a run are processed
  in non-increasing order of depth: a batch is never deeper than a batch processed
  before it, so that the batches of depth 0 come last.
\<close>

theorem batches_in_non_increasing_depth_order:
  assumes "sorted (map fst (traverse_repo env (a_repo_path a) (a_pr_depth a)))"
  shows "sorted_wrt (\<ge>) (map fst (batches (snd (process_files_and_create_prs env a w))))"
proof (cases "assistant_available env")
  case False
  then show ?thesis by (simp add: process_files_and_create_prs_def Let_def)
next
  case True
  let ?items = "rev (traverse_repo env (a_repo_path a) (a_pr_depth a))"
  have srt: "sorted_wrt (\<ge>) (map fst ?items)"
    using assms by (simp add: rev_map [symmetric] sorted_wrt_rev)
  have "sorted_wrt (\<ge>) (map fst (batches (snd (depth_loop env a g ?items st))))"
    if "batches st = []" for g st
    using depth_loop_batches [of env a g ?items st] srt that by auto
  then show ?thesis
    using True by (simp add: process_files_and_create_prs_def Let_def split: prod.splits)
qed

text \<open>
  The witness: on the concrete repository the run processes the batch of depth 1 and
  then the batch of depth 0.
\<close>

theorem batches_in_non_increasing_depth_order_witness:
  "sorted (map fst (traverse_repo demo_env (a_repo_path demo_args) (a_pr_depth demo_args)))
   \<and> sorted_wrt (\<ge>)
       (map fst (batches (snd (process_files_and_create_prs demo_env demo_args demo_world))))
   \<and> batches (snd (process_files_and_create_prs demo_env demo_args demo_world))
     = [(1, ''repo/pkg'', [''repo/pkg/b.py'', ''repo/pkg/sub/c.py'']), (0, ''repo'', [''repo/a.py''])]"
proof -
  have h: "sorted (map fst (traverse_repo demo_env (a_repo_path demo_args) (a_pr_depth demo_args)))"
    by (simp add: demo_env_def demo_args_def)
  have "assistant_available demo_env"
    by (simp add: demo_env_def)
  from run_plan [OF this, of demo_args demo_world]
  have b: "batches (snd (process_files_and_create_prs demo_env demo_args demo_world))
     = [(1, ''repo/pkg'', [''repo/pkg/b.py'', ''repo/pkg/sub/c.py'']), (0, ''repo'', [''repo/a.py''])]"
    by (simp add: plan_eval demo_env_def demo_args_def demo_world_def)
  from batches_in_non_increasing_depth_order [OF h, of demo_world] h b
  show ?thesis by blast
qed

text \<open>
  C8. When every Python file of the repository can be read and its current hash is the
  hash the persisted cache holds for it, a run completes without processing any batch:
  no file is written or backed up, no pull request is opened, and the persisted cache
  and context summary are not rewritten.
\<close>

theorem unchanged_repository_run_is_idle:
  assumes "\<forall>f \<in> set (sort_files_by_size env (get_python_files env (a_repo_path a))).
             \<exists>content. disk w f = Some content
               \<and> load_cache (cache_file w) (relpath env f (a_repo_path a))
                   = Some (sha256_hex env content)"
  shows "fst (process_files_and_create_prs env a w) = Inr ()
         \<and> batches (snd (process_files_and_create_prs env a w)) = []
         \<and> disk (wld (snd (process_files_and_create_prs env a w))) = disk w
         \<and> backups (wld (snd (process_files_and_create_prs env a w))) = backups w
         \<and> pull_requests (wld (snd (process_files_and_create_prs env a w))) = pull_requests w
         \<and> cache_file (wld (snd (process_files_and_create_prs env a w))) = cache_file w
         \<and> context_file (wld (snd (process_files_and_create_prs env a w))) = context_file w"
proof (cases "assistant_available env")
  case False
  then show ?thesis by (simp add: process_files_and_create_prs_def Let_def info_def)
next
  case True
  let ?files = "sort_files_by_size env (get_python_files env (a_repo_path a))"
  let ?w2 = "w\<lparr>cache := load_cache (cache_file w),
               context_summary := (case context_file w of None \<Rightarrow> [] | Some entries \<Rightarrow> entries)\<rparr>"
  have none: "filter (hash_changed env (a_repo_path a) (load_cache (cache_file w)) ?w2) ?files = []"
    using assms by (auto simp: filter_empty_conv hash_changed_def)
  have read: "filter (unreadable ?w2) ?files = []"
    using assms by (auto simp: filter_empty_conv unreadable_def)
  have flt: "filter_files_by_hash env ?files (a_repo_path a) (load_cache (cache_file w)) ?w2
             = ([], ?w2)"
    by (simp add: filter_files_by_hash_eq none read)
  let ?st = "\<lparr>queue = [], batches = [], wld = ?w2\<rparr>"
  have run: "process_files_and_create_prs env a w
             = depth_loop env a (check_git_repo env (a_repo_path a))
                 (rev (traverse_repo env (a_repo_path a) (a_pr_depth a))) ?st"
    using True flt by (simp add: process_files_and_create_prs_def Let_def)
  have "queue ?st = []" by simp
  from depth_loop_empty_queue [OF this] show ?thesis
    unfolding run by (simp add: same_artifacts_def)
qed

text \<open>
  The witness: the concrete repository with the hash of each of its three files in the
  persisted cache.
\<close>

theorem unchanged_repository_run_is_idle_witness:
  "fst (process_files_and_create_prs demo_env demo_args idle_world) = Inr ()
   \<and> batches (snd (process_files_and_create_prs demo_env demo_args idle_world)) = []
   \<and> disk (wld (snd (process_files_and_create_prs demo_env demo_args idle_world))) = disk idle_world
   \<and> pull_requests (wld (snd (process_files_and_create_prs demo_env demo_args idle_world))) = []
   \<and> changed_files demo_env demo_args idle_world = []
   \<and> changed_files demo_env demo_args demo_world
     = [''repo/pkg/b.py'', ''repo/pkg/sub/c.py'', ''repo/a.py'']"
proof -
  have h: "\<forall>f \<in> set (sort_files_by_size demo_env (get_python_files demo_env (a_repo_path demo_args))).
      \<exists>content. disk idle_world f = Some content
        \<and> load_cache (cache_file idle_world) (relpath demo_env f (a_repo_path demo_args))
            = Some (sha256_hex demo_env content)"
    by (simp add: demo_env_def demo_args_def idle_world_def demo_world_def load_cache_def)
  have p: "pull_requests idle_world = []"
    by (simp add: idle_world_def demo_world_def)
  have c1: "changed_files demo_env demo_args idle_world = []"
    by (simp add: plan_eval demo_env_def demo_args_def idle_world_def demo_world_def)
  have c2: "changed_files demo_env demo_args demo_world
     = [''repo/pkg/b.py'', ''repo/pkg/sub/c.py'', ''repo/a.py'']"
    by (simp add: plan_eval demo_env_def demo_args_def demo_world_def)
  from unchanged_repository_run_is_idle [OF h] p c1 c2 show ?thesis by simp
qed

end
